theory Spec2Isabelle
  imports Complex_Main "HOL-Library.Char_ord" "HOL-Library.List_Lexorder" "HOL-Library.Log_Nat"
begin

section \<open>Data model (src/types/index.ts)\<close>

text \<open>
  Strings are Isabelle strings: a character stands for one UTF-16 code unit below 256.
  The field \<open>id\<close> of a task is called \<open>id_task\<close> (\<open>id\<close> is the identity function of HOL).
\<close>

record Task =
  id_task :: string
  title :: string
  description :: string
  "done" :: bool
  approved :: bool
  completedDetails :: string

record Request =
  requestId :: string
  originalRequest :: string
  splitDetails :: string
  tasks :: "Task list"
  completed :: bool

record TasksData =
  requests :: "Request list"

text \<open>
  \<open>ApiError message status\<close>, a plain \<open>Error message\<close>, and the structured error that
  a failing schema validation throws.
\<close>

datatype error = ApiError string nat | Error string | ZodError

section \<open>The files of the service\<close>

text \<open>
  What \<open>JSON.parse\<close> and \<open>new Date(lockInfo.timestamp).getTime()\<close> make of the content
  of the lock file: \<open>Unparsable\<close> when reading the property throws (the text is not JSON,
  or it is the JSON \<open>null\<close>), otherwise \<open>LockInfo t\<close> with \<open>t\<close> the time value in
  milliseconds, \<open>None\<close> for \<open>NaN\<close> (no timestamp, or one that is not a date).
\<close>

datatype lock_content = Unparsable | LockInfo "int option"

text \<open>
  The state the service works on: the clock (\<open>Date.now()\<close>, in milliseconds), the files
  at the fixed paths (\<open>None\<close>: the file does not exist), the backup directory as the list
  of its entries (name and content) in the order \<open>readdir\<close> returns them, and the
  private field \<open>lockFile\<close> of the singleton (the descriptor of the lock it holds). The
  other private field, \<open>data\<close>, is only ever assigned and never read, and is left out.
  File operations take no time: the clock moves only when the service sleeps.
\<close>

record state =
  now :: int
  TASKS_FILE :: "string option"
  TASKS_FILE_checksum :: "string option"
  TASKS_FILE_tmp :: "string option"
  TASKS_FILE_tmp_checksum :: "string option"
  LOCK_FILE :: "lock_content option"
  BACKUP_DIR :: "(string \<times> string) list option"
  lockFile :: "nat option"

definition MAX_BACKUPS :: nat where
  "MAX_BACKUPS = 10"

definition LOCK_TIMEOUT :: int where
  "LOCK_TIMEOUT = 30000"

section \<open>String helpers of the JavaScript library\<close>

definition startsWith :: "string \<Rightarrow> string \<Rightarrow> bool" where
  "startsWith s p = (take (length p) s = p)"

definition endsWith :: "string \<Rightarrow> string \<Rightarrow> bool" where
  "endsWith s p = (length p \<le> length s \<and> drop (length s - length p) s = p)"

text \<open>\<open>s.replace(p, r)\<close> with a string pattern: the first occurrence only.\<close>

fun replace :: "string \<Rightarrow> string \<Rightarrow> string \<Rightarrow> string" where
  "replace [] p r = (if p = [] then r else [])"
| "replace (c # cs) p r =
     (if startsWith (c # cs) p then r @ drop (length p) (c # cs) else c # replace cs p r)"

text \<open>
  \<open>a.localeCompare(b)\<close>, modelled as the comparison of the code units. The collation of
  the language puts digits before letters, as the code units do, and orders digits among
  themselves as they do; it differs where letters of both cases are compared with each
  other, which decides no comparison between the names used below.
\<close>

definition localeCompare :: "string \<Rightarrow> string \<Rightarrow> int" where
  "localeCompare a b = (if a < b then - 1 else if a = b then 0 else 1)"

text \<open>
  \<open>Array.prototype.sort\<close> with a comparator: a stable sort, here by insertion. An element
  goes behind every element that the comparator does not put after it.
\<close>

fun sort_insert :: "('a \<Rightarrow> 'a \<Rightarrow> int) \<Rightarrow> 'a \<Rightarrow> 'a list \<Rightarrow> 'a list" where
  "sort_insert cmp x [] = [x]"
| "sort_insert cmp x (y # ys) = (if cmp y x \<le> 0 then y # sort_insert cmp x ys else x # y # ys)"

definition sort_js :: "('a \<Rightarrow> 'a \<Rightarrow> int) \<Rightarrow> 'a list \<Rightarrow> 'a list" where
  "sort_js cmp xs = foldl (\<lambda>acc x. sort_insert cmp x acc) [] xs"

section \<open>Backup rotation\<close>

record backup_entry =
  name :: string
  timestamp :: string

definition readdir :: "state \<Rightarrow> string list option" where
  "readdir s = map_option (map fst) (BACKUP_DIR s)"

definition unlink_backup :: "string \<Rightarrow> state \<Rightarrow> state" where
  "unlink_backup f s =
     s\<lparr>BACKUP_DIR := map_option (filter (\<lambda>e. fst e \<noteq> f)) (BACKUP_DIR s)\<rparr>"

text \<open>The listing both \<open>cleanupOldBackups\<close> and \<open>restoreFromBackup\<close> compute.\<close>

definition taskBackups :: "string list \<Rightarrow> backup_entry list" where
  "taskBackups backupFiles =
     sort_js (\<lambda>a b. localeCompare (timestamp b) (timestamp a))
       (map (\<lambda>file. \<lparr>name = file,
                       timestamp = replace (replace file ''tasks-'' '''') ''.json'' ''''\<rparr>)
          (filter (\<lambda>file. startsWith file ''tasks-'' \<and> endsWith file ''.json'') backupFiles))"

text \<open>
  \<open>cleanupOldBackups\<close>: a missing directory makes \<open>readdir\<close> throw, which is caught and
  logged; every \<open>unlink\<close> is of a name just listed.
\<close>

definition cleanupOldBackups :: "state \<Rightarrow> state" where
  "cleanupOldBackups s =
     (case readdir s of
        None \<Rightarrow> s
      | Some backupFiles \<Rightarrow>
          (let bs = taskBackups backupFiles in
           if length bs > MAX_BACKUPS
           then fold (\<lambda>backup. unlink_backup (name backup)) (drop MAX_BACKUPS bs) s
           else s))"

section \<open>JSON values, \<open>JSON.stringify\<close> and \<open>JSON.parse\<close>\<close>

text \<open>
  The values \<open>JSON.parse\<close> produces. A number keeps its literal as written, where the
  language would print it anew; an object is the list of its properties in insertion
  order, where the language moves keys that are array indices to the front. The
  documents of this program contain no number and no such key: the schemas strip every
  property they do not name.
\<close>

datatype json =
  JNull | JBool bool | JNumber string | JString string
| JArray "json list" | JObject "(string \<times> json) list"

definition dq :: char where
  "dq = CHR 0x22"

definition bslash :: char where
  "bslash = CHR 0x5C"

definition nl :: char where
  "nl = CHR 0x0A"

definition hex_digit :: "nat \<Rightarrow> char" where
  "hex_digit n = ''0123456789abcdef'' ! n"

text \<open>\<open>QuoteJSONString\<close>: the escapes of \<open>JSON.stringify\<close>.\<close>

definition escape_char :: "char \<Rightarrow> string" where
  "escape_char c =
     (if c = dq then [bslash, dq]
      else if c = bslash then [bslash, bslash]
      else if c = CHR 0x08 then [bslash, CHR ''b'']
      else if c = CHR 0x0C then [bslash, CHR ''f'']
      else if c = CHR 0x0A then [bslash, CHR ''n'']
      else if c = CHR 0x0D then [bslash, CHR ''r'']
      else if c = CHR 0x09 then [bslash, CHR ''t'']
      else if (of_char c :: nat) < 0x20
      then [bslash, CHR ''u'', CHR ''0'', CHR ''0'',
            hex_digit (of_char c div 16), hex_digit (of_char c mod 16)]
      else [c])"

definition quote :: "string \<Rightarrow> string" where
  "quote s = dq # concat (map escape_char s) @ [dq]"

text \<open>
  \<open>SerializeJSONProperty\<close> with the gap (empty for \<open>JSON.stringify(v)\<close>, two spaces
  for \<open>JSON.stringify(v, null, 2)\<close>) and the current indentation.
\<close>

definition sep :: "string \<Rightarrow> string \<Rightarrow> string" where
  "sep gap ind = (if gap = [] then [] else nl # ind)"

definition colon :: "string \<Rightarrow> string" where
  "colon gap = (if gap = [] then '':'' else '': '')"

fun ser :: "string \<Rightarrow> string \<Rightarrow> json \<Rightarrow> string"
  and ser_list :: "string \<Rightarrow> string \<Rightarrow> json list \<Rightarrow> string"
  and ser_members :: "string \<Rightarrow> string \<Rightarrow> (string \<times> json) list \<Rightarrow> string" where
  "ser gap ind JNull = ''null''"
| "ser gap ind (JBool b) = (if b then ''true'' else ''false'')"
| "ser gap ind (JNumber n) = n"
| "ser gap ind (JString s) = quote s"
| "ser gap ind (JArray []) = ''[]''"
| "ser gap ind (JArray (x # xs)) =
     ''['' @ sep gap (ind @ gap) @ ser gap (ind @ gap) x @ ser_list gap (ind @ gap) xs
       @ sep gap ind @ '']''"
| "ser gap ind (JObject []) = ''{}''"
| "ser gap ind (JObject (kv # kvs)) =
     ''{'' @ sep gap (ind @ gap) @ quote (fst kv) @ colon gap @ ser gap (ind @ gap) (snd kv)
       @ ser_members gap (ind @ gap) kvs @ sep gap ind @ ''}''"
| "ser_list gap ind [] = []"
| "ser_list gap ind (x # xs) = '','' @ sep gap ind @ ser gap ind x @ ser_list gap ind xs"
| "ser_members gap ind [] = []"
| "ser_members gap ind (kv # kvs) =
     '','' @ sep gap ind @ quote (fst kv) @ colon gap @ ser gap ind (snd kv)
       @ ser_members gap ind kvs"

definition JSON_stringify :: "json \<Rightarrow> string" where
  "JSON_stringify v = ser [] [] v"

definition JSON_stringify2 :: "json \<Rightarrow> string" where
  "JSON_stringify2 v = ser ''  '' [] v"

text \<open>
  \<open>JSON.parse\<close>, by recursive descent. \<open>None\<close> is the \<open>SyntaxError\<close>. An escape
  \<open>\uXXXX\<close> of a code unit above 255 is outside the strings of this model and is
  refused, where the language accepts it; \<open>JSON.stringify\<close> writes no such escape, so no
  text that \<open>saveData\<close> or \<open>createBackup\<close> writes contains one.
\<close>

definition is_ws :: "char \<Rightarrow> bool" where
  "is_ws c = (c = CHR '' '' \<or> c = CHR 0x09 \<or> c = CHR 0x0A \<or> c = CHR 0x0D)"

definition skip_ws :: "string \<Rightarrow> string" where
  "skip_ws s = dropWhile is_ws s"

definition hex_val :: "char \<Rightarrow> nat option" where
  "hex_val c =
     (let n = (of_char c :: nat) in
      if 48 \<le> n \<and> n \<le> 57 then Some (n - 48)
      else if 97 \<le> n \<and> n \<le> 102 then Some (n - 87)
      else if 65 \<le> n \<and> n \<le> 70 then Some (n - 55)
      else None)"

definition hex4 :: "char \<Rightarrow> char \<Rightarrow> char \<Rightarrow> char \<Rightarrow> nat option" where
  "hex4 a b c d =
     (case (hex_val a, hex_val b, hex_val c, hex_val d) of
        (Some w, Some x, Some y, Some z) \<Rightarrow> Some (((w * 16 + x) * 16 + y) * 16 + z)
      | _ \<Rightarrow> None)"

definition unescape :: "char \<Rightarrow> char option" where
  "unescape e =
     (if e = dq then Some dq
      else if e = bslash then Some bslash
      else if e = CHR ''/'' then Some CHR ''/''
      else if e = CHR ''b'' then Some (CHR 0x08)
      else if e = CHR ''f'' then Some (CHR 0x0C)
      else if e = CHR ''n'' then Some (CHR 0x0A)
      else if e = CHR ''r'' then Some (CHR 0x0D)
      else if e = CHR ''t'' then Some (CHR 0x09)
      else None)"

definition cons_result :: "'a \<Rightarrow> ('a list \<times> 'b) option \<Rightarrow> ('a list \<times> 'b) option" where
  "cons_result x r = (case r of None \<Rightarrow> None | Some (xs, rest) \<Rightarrow> Some (x # xs, rest))"

text \<open>The characters of a string literal, after its opening quote.\<close>

fun parse_string :: "string \<Rightarrow> (string \<times> string) option" where
  "parse_string [] = None"
| "parse_string (c # cs) =
     (if c = dq then Some ([], cs)
      else if c = bslash then
        (case cs of
           [] \<Rightarrow> None
         | e # r \<Rightarrow>
             if e = CHR ''u'' then
               (case r of
                  h1 # h2 # h3 # h4 # r' \<Rightarrow>
                    (case hex4 h1 h2 h3 h4 of
                       None \<Rightarrow> None
                     | Some n \<Rightarrow> if n < 256 then cons_result (char_of n) (parse_string r') else None)
                | _ \<Rightarrow> None)
             else
               (case unescape e of
                  None \<Rightarrow> None
                | Some ch \<Rightarrow> cons_result ch (parse_string r)))
      else if (of_char c :: nat) < 0x20 then None
      else cons_result c (parse_string cs))"

definition is_digit :: "char \<Rightarrow> bool" where
  "is_digit c = (48 \<le> (of_char c :: nat) \<and> (of_char c :: nat) \<le> 57)"

text \<open>
  The literal of a number: an optional minus, \<open>0\<close> or digits without a leading zero,
  an optional fraction, an optional exponent. The result is the literal and the rest.
\<close>

definition digits1 :: "string \<Rightarrow> (string \<times> string) option" where
  "digits1 s = (if takeWhile is_digit s = [] then None
                else Some (takeWhile is_digit s, dropWhile is_digit s))"

definition parse_int_part :: "string \<Rightarrow> (string \<times> string) option" where
  "parse_int_part s =
     (case s of
        [] \<Rightarrow> None
      | c # r \<Rightarrow> if c = CHR ''0'' then Some (''0'', r) else digits1 s)"

definition parse_frac :: "string \<Rightarrow> (string \<times> string) option" where
  "parse_frac s =
     (case s of
        [] \<Rightarrow> Some ([], s)
      | c # r \<Rightarrow>
          if c = CHR ''.'' then
            (case digits1 r of None \<Rightarrow> None | Some (ds, r') \<Rightarrow> Some (c # ds, r'))
          else Some ([], s))"

definition parse_exp :: "string \<Rightarrow> (string \<times> string) option" where
  "parse_exp s =
     (case s of
        [] \<Rightarrow> Some ([], s)
      | c # r \<Rightarrow>
          if c = CHR ''e'' \<or> c = CHR ''E'' then
            (case r of
               [] \<Rightarrow> None
             | g # r' \<Rightarrow>
                 if g = CHR ''+'' \<or> g = CHR ''-'' then
                   (case digits1 r' of None \<Rightarrow> None | Some (ds, r'') \<Rightarrow> Some (c # g # ds, r''))
                 else
                   (case digits1 r of None \<Rightarrow> None | Some (ds, r'') \<Rightarrow> Some (c # ds, r'')))
          else Some ([], s))"

definition parse_number :: "string \<Rightarrow> (json \<times> string) option" where
  "parse_number s =
     (let (sign, s0) = (case s of c # r \<Rightarrow> if c = CHR ''-'' then ([c], r) else ([], s)
                        | [] \<Rightarrow> ([], s)) in
      case parse_int_part s0 of
        None \<Rightarrow> None
      | Some (i, s1) \<Rightarrow>
          (case parse_frac s1 of
             None \<Rightarrow> None
           | Some (f, s2) \<Rightarrow>
               (case parse_exp s2 of
                  None \<Rightarrow> None
                | Some (e, s3) \<Rightarrow> Some (JNumber (sign @ i @ f @ e), s3))))"

text \<open>Setting a property: a key already there keeps its place and takes the new value.\<close>

fun obj_put :: "(string \<times> json) list \<Rightarrow> string \<times> json \<Rightarrow> (string \<times> json) list" where
  "obj_put [] kv = [kv]"
| "obj_put (p # ps) kv = (if fst p = fst kv then kv # ps else p # obj_put ps kv)"

text \<open>
  The descent takes fuel, one unit for each call; \<open>JSON_parse\<close> gives it more than the
  length of the text, which no text uses up.
\<close>

fun parse_value :: "nat \<Rightarrow> string \<Rightarrow> (json \<times> string) option"
  and parse_elements :: "nat \<Rightarrow> string \<Rightarrow> (json list \<times> string) option"
  and parse_members :: "nat \<Rightarrow> string \<Rightarrow> ((string \<times> json) list \<times> string) option" where
  "parse_value 0 s = None"
| "parse_value (Suc n) s =
     (case s of
        [] \<Rightarrow> None
      | c # r \<Rightarrow>
          if c = CHR ''{'' then
            (case skip_ws r of
               [] \<Rightarrow> None
             | c' # r' \<Rightarrow>
                 if c' = CHR ''}'' then Some (JObject [], r')
                 else (case parse_members n (c' # r') of
                         None \<Rightarrow> None
                       | Some (kvs, r'') \<Rightarrow> Some (JObject (foldl obj_put [] kvs), r'')))
          else if c = CHR ''['' then
            (case skip_ws r of
               [] \<Rightarrow> None
             | c' # r' \<Rightarrow>
                 if c' = CHR '']'' then Some (JArray [], r')
                 else (case parse_elements n (c' # r') of
                         None \<Rightarrow> None
                       | Some (vs, r'') \<Rightarrow> Some (JArray vs, r'')))
          else if c = dq then
            (case parse_string r of None \<Rightarrow> None | Some (str, r') \<Rightarrow> Some (JString str, r'))
          else if startsWith s ''true'' then Some (JBool True, drop 4 s)
          else if startsWith s ''false'' then Some (JBool False, drop 5 s)
          else if startsWith s ''null'' then Some (JNull, drop 4 s)
          else parse_number s)"
| "parse_elements 0 s = None"
| "parse_elements (Suc n) s =
     (case parse_value n s of
        None \<Rightarrow> None
      | Some (v, r) \<Rightarrow>
          (case skip_ws r of
             [] \<Rightarrow> None
           | c # r' \<Rightarrow>
               if c = CHR '','' then cons_result v (parse_elements n (skip_ws r'))
               else if c = CHR '']'' then Some ([v], r')
               else None))"
| "parse_members 0 s = None"
| "parse_members (Suc n) s =
     (case s of
        [] \<Rightarrow> None
      | c # r \<Rightarrow>
          if c = dq then
            (case parse_string r of
               None \<Rightarrow> None
             | Some (k, r1) \<Rightarrow>
                 (case skip_ws r1 of
                    [] \<Rightarrow> None
                  | c1 # r2 \<Rightarrow>
                      if c1 = CHR '':'' then
                        (case parse_value n (skip_ws r2) of
                           None \<Rightarrow> None
                         | Some (v, r3) \<Rightarrow>
                             (case skip_ws r3 of
                                [] \<Rightarrow> None
                              | c3 # r4 \<Rightarrow>
                                  if c3 = CHR '','' then
                                    cons_result (k, v) (parse_members n (skip_ws r4))
                                  else if c3 = CHR ''}'' then Some ([(k, v)], r4)
                                  else None))
                      else None))
          else None)"

definition JSON_parse :: "string \<Rightarrow> json option" where
  "JSON_parse s =
     (case parse_value (Suc (length s)) (skip_ws s) of
        None \<Rightarrow> None
      | Some (v, r) \<Rightarrow> if skip_ws r = [] then Some v else None)"

section \<open>Schemas (src/schemas/validation.ts)\<close>

text \<open>
  A document as the value \<open>JSON.stringify\<close> sees: the properties in the order of the
  schema, which is the order of the object a successful validation returns.
\<close>

definition json_of_Task :: "Task \<Rightarrow> json" where
  "json_of_Task t =
     JObject [(''id'', JString (id_task t)), (''title'', JString (title t)),
              (''description'', JString (description t)), (''done'', JBool (done t)),
              (''approved'', JBool (approved t)),
              (''completedDetails'', JString (completedDetails t))]"

definition json_of_Request :: "Request \<Rightarrow> json" where
  "json_of_Request r =
     JObject [(''requestId'', JString (requestId r)),
              (''originalRequest'', JString (originalRequest r)),
              (''splitDetails'', JString (splitDetails r)),
              (''tasks'', JArray (map json_of_Task (tasks r))),
              (''completed'', JBool (completed r))]"

definition json_of_TasksData :: "TasksData \<Rightarrow> json" where
  "json_of_TasksData d = JObject [(''requests'', JArray (map json_of_Request (requests d)))]"

text \<open>\<open>z.string()\<close>, \<open>z.boolean()\<close> on a property that may be missing.\<close>

definition z_string :: "json option \<Rightarrow> string option" where
  "z_string v = (case v of Some (JString s) \<Rightarrow> Some s | _ \<Rightarrow> None)"

definition z_boolean :: "json option \<Rightarrow> bool option" where
  "z_boolean v = (case v of Some (JBool b) \<Rightarrow> Some b | _ \<Rightarrow> None)"

text \<open>
  \<open>Schema.parse\<close>: \<open>None\<close> is the thrown validation error. The value must be an object;
  properties the schema does not name are dropped.
\<close>

definition TaskSchema_parse :: "json \<Rightarrow> Task option" where
  "TaskSchema_parse v =
     (case v of
        JObject kvs \<Rightarrow>
          (case (z_string (map_of kvs ''id''), z_string (map_of kvs ''title''),
                 z_string (map_of kvs ''description''), z_boolean (map_of kvs ''done''),
                 z_boolean (map_of kvs ''approved''),
                 z_string (map_of kvs ''completedDetails'')) of
             (Some i, Some t, Some d, Some dn, Some a, Some c) \<Rightarrow>
               if 1 \<le> length i \<and> 1 \<le> length t \<and> length t \<le> 200 \<and> 1 \<le> length d
               then Some \<lparr>id_task = i, title = t, description = d, done = dn, approved = a,
                          completedDetails = c\<rparr>
               else None
           | _ \<Rightarrow> None)
      | _ \<Rightarrow> None)"

definition z_array :: "(json \<Rightarrow> 'a option) \<Rightarrow> json option \<Rightarrow> 'a list option" where
  "z_array item v = (case v of Some (JArray xs) \<Rightarrow> those (map item xs) | _ \<Rightarrow> None)"

definition RequestSchema_parse :: "json \<Rightarrow> Request option" where
  "RequestSchema_parse v =
     (case v of
        JObject kvs \<Rightarrow>
          (case (z_string (map_of kvs ''requestId''), z_string (map_of kvs ''originalRequest''),
                 z_string (map_of kvs ''splitDetails''),
                 z_array TaskSchema_parse (map_of kvs ''tasks''),
                 z_boolean (map_of kvs ''completed'')) of
             (Some i, Some orig, Some sd, Some ts, Some c) \<Rightarrow>
               if 1 \<le> length i \<and> 1 \<le> length orig
               then Some \<lparr>requestId = i, originalRequest = orig, splitDetails = sd, tasks = ts,
                          completed = c\<rparr>
               else None
           | _ \<Rightarrow> None)
      | _ \<Rightarrow> None)"

definition TasksDataSchema_parse :: "json \<Rightarrow> TasksData option" where
  "TasksDataSchema_parse v =
     (case v of
        JObject kvs \<Rightarrow>
          (case z_array RequestSchema_parse (map_of kvs ''requests'') of
             Some rs \<Rightarrow> Some \<lparr>requests = rs\<rparr>
           | None \<Rightarrow> None)
      | _ \<Rightarrow> None)"

section \<open>Numbers and dates as text\<close>

definition digit_char :: "nat \<Rightarrow> char" where
  "digit_char d = char_of (48 + d)"

text \<open>The decimal digits of a natural number, as a template literal prints it.\<close>

fun show_nat :: "nat \<Rightarrow> string" where
  "show_nat n = (if n < 10 then [digit_char n] else show_nat (n div 10) @ [digit_char (n mod 10)])"

declare show_nat.simps [simp del]

definition pad :: "nat \<Rightarrow> nat \<Rightarrow> string" where
  "pad k n = replicate (k - length (show_nat n)) CHR ''0'' @ show_nat n"

text \<open>
  \<open>new Date(t).toISOString()\<close> for a time value in milliseconds: the date of the
  proleptic Gregorian calendar from the count of days, then the time of day.
\<close>

definition civil_from_days :: "int \<Rightarrow> int \<times> nat \<times> nat" where
  "civil_from_days z0 =
     (let z = z0 + 719468;
          era = z div 146097;
          doe = z - era * 146097;
          yoe = (doe - doe div 1460 + doe div 36524 - doe div 146096) div 365;
          y = yoe + era * 400;
          doy = doe - (365 * yoe + yoe div 4 - yoe div 100);
          mp = (5 * doy + 2) div 153;
          d = doy - (153 * mp + 2) div 5 + 1;
          m = (if mp < 10 then mp + 3 else mp - 9)
      in (if m \<le> 2 then y + 1 else y, nat m, nat d))"

definition toISOString :: "int \<Rightarrow> string" where
  "toISOString t =
     (let (y, m, d) = civil_from_days (t div 86400000);
          ms = nat (t mod 86400000);
          year = (if 0 \<le> y \<and> y \<le> 9999 then pad 4 (nat y)
                  else (if y < 0 then ''-'' else ''+'') @ pad 6 (nat \<bar>y\<bar>))
      in year @ ''-'' @ pad 2 m @ ''-'' @ pad 2 d @ ''T'' @ pad 2 (ms div 3600000) @ '':''
           @ pad 2 (ms div 60000 mod 60) @ '':'' @ pad 2 (ms div 1000 mod 60) @ ''.''
           @ pad 3 (ms mod 1000) @ ''Z'')"

text \<open>\<open>s.replace(/[:.]/g, '-')\<close>.\<close>

definition replace_colon_dot :: "string \<Rightarrow> string" where
  "replace_colon_dot s = map (\<lambda>c. if c = CHR '':'' \<or> c = CHR ''.'' then CHR ''-'' else c) s"

text \<open>\<open>s.trim()\<close>: the white space and line terminators among the code units below 256.\<close>

definition is_js_space :: "char \<Rightarrow> bool" where
  "is_js_space c = ((of_char c :: nat) \<in> {9, 10, 11, 12, 13, 32, 160})"

definition trim :: "string \<Rightarrow> string" where
  "trim s = rev (dropWhile is_js_space (rev (dropWhile is_js_space s)))"

section \<open>Checksum and lock\<close>

text \<open>
  \<open>calculateChecksum\<close> is the SHA-256 digest of the text in hexadecimal. The digest
  comes from the \<open>crypto\<close> library and is a parameter of everything that uses it.
\<close>

type_synonym digest = "string \<Rightarrow> string"

definition calculateChecksum :: "digest \<Rightarrow> string \<Rightarrow> string" where
  "calculateChecksum sha256 d = sha256 d"

text \<open>
  \<open>acquireLock\<close>. The exclusive \<open>open\<close> succeeds exactly when there is no lock file;
  the only failure of \<open>open\<close> in this model is \<open>EEXIST\<close>. A comparison with \<open>NaN\<close>
  is false. The descriptor of the lock is \<open>3\<close>.
\<close>

function acquireLock_loop :: "int \<Rightarrow> state \<Rightarrow> (error + unit) \<times> state" where
  "acquireLock_loop startTime s =
     (if now s - startTime < LOCK_TIMEOUT then
        (case LOCK_FILE s of
           None \<Rightarrow> (Inr (), s\<lparr>LOCK_FILE := Some (LockInfo (Some (now s))), lockFile := Some 3\<rparr>)
         | Some Unparsable \<Rightarrow> acquireLock_loop startTime (s\<lparr>LOCK_FILE := None\<rparr>)
         | Some (LockInfo None) \<Rightarrow> acquireLock_loop startTime (s\<lparr>now := now s + 100\<rparr>)
         | Some (LockInfo (Some t)) \<Rightarrow>
             if now s - t > LOCK_TIMEOUT
             then acquireLock_loop startTime (s\<lparr>LOCK_FILE := None\<rparr>)
             else acquireLock_loop startTime (s\<lparr>now := now s + 100\<rparr>))
      else (Inl (ApiError ''Timeout waiting for file lock'' 409), s))"
  by pat_completeness auto
termination
  by (relation "measures [\<lambda>(st, s). nat (st + LOCK_TIMEOUT - now s),
                          \<lambda>(st, s). if LOCK_FILE s = None then 0 else 1]")
     (auto simp: LOCK_TIMEOUT_def)

declare acquireLock_loop.simps [simp del]

definition acquireLock :: "state \<Rightarrow> (error + unit) \<times> state" where
  "acquireLock s = acquireLock_loop (now s) s"

definition releaseLock :: "state \<Rightarrow> state" where
  "releaseLock s =
     (case lockFile s of
        None \<Rightarrow> s
      | Some fd \<Rightarrow> if fd = 0 then s else s\<lparr>LOCK_FILE := None, lockFile := None\<rparr>)"

section \<open>Backups\<close>

definition ensureDir :: "state \<Rightarrow> state" where
  "ensureDir s = s\<lparr>BACKUP_DIR := Some (case BACKUP_DIR s of None \<Rightarrow> [] | Some d \<Rightarrow> d)\<rparr>"

fun write_entry :: "string \<Rightarrow> string \<Rightarrow> (string \<times> string) list \<Rightarrow> (string \<times> string) list" where
  "write_entry f c [] = [(f, c)]"
| "write_entry f c (e # es) = (if fst e = f then (f, c) # es else e # write_entry f c es)"

definition write_backup :: "string \<Rightarrow> string \<Rightarrow> state \<Rightarrow> state" where
  "write_backup f c s = s\<lparr>BACKUP_DIR := map_option (write_entry f c) (BACKUP_DIR s)\<rparr>"

definition read_backup :: "string \<Rightarrow> state \<Rightarrow> string option" where
  "read_backup f s = (case BACKUP_DIR s of None \<Rightarrow> None | Some d \<Rightarrow> map_of d f)"

definition backup_record :: "digest \<Rightarrow> int \<Rightarrow> string \<Rightarrow> json \<Rightarrow> json" where
  "backup_record sha256 t originalContent d =
     JObject [(''timestamp'', JString (toISOString t)),
              (''checksum'', JString (calculateChecksum sha256 originalContent)),
              (''data'', d)]"

text \<open>
  \<open>createBackup\<close>: nothing it throws leaves it; a live file that is not JSON makes
  \<open>JSON.parse\<close> throw before anything is written.
\<close>

definition createBackup :: "digest \<Rightarrow> state \<Rightarrow> state" where
  "createBackup sha256 s0 =
     (let s = ensureDir s0 in
      case TASKS_FILE s of
        None \<Rightarrow> s
      | Some originalContent \<Rightarrow>
          (case JSON_parse originalContent of
             None \<Rightarrow> s
           | Some d \<Rightarrow>
               cleanupOldBackups
                 (write_backup (''tasks-'' @ replace_colon_dot (toISOString (now s)) @ ''.json'')
                    (JSON_stringify2 (backup_record sha256 (now s) originalContent d)) s)))"

text \<open>The truth value of a property that may be missing.\<close>

definition zero_literal :: "string \<Rightarrow> bool" where
  "zero_literal n =
     list_all (\<lambda>c. \<not> (49 \<le> (of_char c :: nat) \<and> (of_char c :: nat) \<le> 57))
       (takeWhile (\<lambda>c. c \<noteq> CHR ''e'' \<and> c \<noteq> CHR ''E'') n)"

definition truthy :: "json option \<Rightarrow> bool" where
  "truthy v =
     (case v of
        None \<Rightarrow> False
      | Some JNull \<Rightarrow> False
      | Some (JBool b) \<Rightarrow> b
      | Some (JNumber n) \<Rightarrow> \<not> zero_literal n
      | Some (JString s) \<Rightarrow> s \<noteq> []
      | Some _ \<Rightarrow> True)"

text \<open>
  Reading a property: of \<open>null\<close> it throws, of a value that is not an object it is
  \<open>undefined\<close>. Both make \<open>restoreFromBackup\<close> go on to the next backup.
\<close>

definition get_prop :: "json \<Rightarrow> string \<Rightarrow> json option" where
  "get_prop v k = (case v of JObject kvs \<Rightarrow> map_of kvs k | _ \<Rightarrow> None)"

text \<open>The loop of \<open>restoreFromBackup\<close> over the backups, newest first.\<close>

fun restore_scan :: "digest \<Rightarrow> backup_entry list \<Rightarrow> state \<Rightarrow> TasksData option \<times> state" where
  "restore_scan sha256 [] s = (None, s)"
| "restore_scan sha256 (backup # rest) s =
     (case read_backup (name backup) s of
        None \<Rightarrow> restore_scan sha256 rest s
      | Some backupContent \<Rightarrow>
          (case JSON_parse backupContent of
             None \<Rightarrow> restore_scan sha256 rest s
           | Some backupData \<Rightarrow>
               if truthy (get_prop backupData ''data'') \<and> truthy (get_prop backupData ''checksum'')
                  \<and> Some (JString (calculateChecksum sha256
                              (JSON_stringify (the (get_prop backupData ''data'')))))
                      = get_prop backupData ''checksum''
               then
                 (case TasksDataSchema_parse (the (get_prop backupData ''data'')) of
                    None \<Rightarrow> restore_scan sha256 rest s
                  | Some validatedData \<Rightarrow>
                      (Some validatedData,
                       s\<lparr>TASKS_FILE :=
                            Some (JSON_stringify2 (json_of_TasksData validatedData))\<rparr>))
               else restore_scan sha256 rest s))"

definition restoreFromBackup :: "digest \<Rightarrow> state \<Rightarrow> TasksData option \<times> state" where
  "restoreFromBackup sha256 s =
     (case readdir s of
        None \<Rightarrow> (None, s)
      | Some backupFiles \<Rightarrow> restore_scan sha256 (taskBackups backupFiles) s)"

section \<open>Saving and loading\<close>

text \<open>
  \<open>saveData\<close>. The lock is taken before the \<open>try\<close>, so a failure to take it releases
  nothing. The first parameter is what the file system gives back when the temporary
  file is read after it was written.
\<close>

definition saveData_on :: "(string \<Rightarrow> string) \<Rightarrow> digest \<Rightarrow> TasksData \<Rightarrow> state \<Rightarrow> (error + unit) \<times> state" where
  "saveData_on disk sha256 d s0 =
     (case acquireLock s0 of
        (Inl e, s1) \<Rightarrow> (Inl e, s1)
      | (Inr _, s1) \<Rightarrow>
          (let s2 = createBackup sha256 s1 in
           case TasksDataSchema_parse (json_of_TasksData d) of
             None \<Rightarrow> (Inl ZodError, releaseLock s2)
           | Some validatedData \<Rightarrow>
               (let dataString = JSON_stringify2 (json_of_TasksData validatedData);
                    checksum = calculateChecksum sha256 dataString;
                    s3 = s2\<lparr>TASKS_FILE_tmp := Some (disk dataString),
                            TASKS_FILE_tmp_checksum := Some checksum\<rparr>;
                    writtenData = the (TASKS_FILE_tmp s3);
                    writtenChecksum = calculateChecksum sha256 writtenData
                in if writtenChecksum \<noteq> checksum
                   then (Inl (Error ''Data integrity check failed after write''),
                         releaseLock (s3\<lparr>TASKS_FILE_tmp := None,
                                          TASKS_FILE_tmp_checksum := None\<rparr>))
                   else (Inr (),
                         releaseLock (s3\<lparr>TASKS_FILE := TASKS_FILE_tmp s3,
                                          TASKS_FILE_checksum := TASKS_FILE_tmp_checksum s3,
                                          TASKS_FILE_tmp := None,
                                          TASKS_FILE_tmp_checksum := None\<rparr>)))))"

text \<open>The service runs on a file system that gives back what was written.\<close>

definition saveData :: "digest \<Rightarrow> TasksData \<Rightarrow> state \<Rightarrow> (error + unit) \<times> state" where
  "saveData sha256 d s = saveData_on (\<lambda>w. w) sha256 d s"

definition error_toString :: "error \<Rightarrow> string" where
  "error_toString e =
     (case e of ApiError m st \<Rightarrow> ''ApiError: '' @ m | Error m \<Rightarrow> ''Error: '' @ m
      | ZodError \<Rightarrow> ''ZodError'')"

text \<open>The outer \<open>catch\<close> of \<open>loadData\<close>.\<close>

definition load_failure :: "error \<Rightarrow> error" where
  "load_failure e =
     (case e of
        ApiError m st \<Rightarrow> e
      | _ \<Rightarrow> ApiError (''Failed to load tasks data: '' @ error_toString e) 500)"

definition restore_or :: "digest \<Rightarrow> error \<Rightarrow> state \<Rightarrow> (error + TasksData) \<times> state" where
  "restore_or sha256 e s =
     (case restoreFromBackup sha256 s of
        (Some restoredData, s') \<Rightarrow> (Inr restoredData, s')
      | (None, s') \<Rightarrow> (Inl (load_failure e), s'))"

definition loadData :: "digest \<Rightarrow> state \<Rightarrow> (error + TasksData) \<times> state" where
  "loadData sha256 s =
     (case TASKS_FILE s of
        None \<Rightarrow>
          (case saveData sha256 \<lparr>requests = []\<rparr> s of
             (Inl e, s') \<Rightarrow> (Inl (load_failure e), s')
           | (Inr _, s') \<Rightarrow> (Inr \<lparr>requests = []\<rparr>, s'))
      | Some fileContent \<Rightarrow>
          if trim fileContent = [] then restore_or sha256 (Error ''Empty file detected'') s
          else
            (case JSON_parse fileContent of
               None \<Rightarrow>
                 restore_or sha256
                   (ApiError ''Invalid JSON format and no valid backup available'' 400) s
             | Some rawData \<Rightarrow>
                 (case TasksDataSchema_parse rawData of
                    None \<Rightarrow>
                      restore_or sha256
                        (ApiError ''Invalid data structure and no valid backup available'' 400) s
                  | Some validatedData \<Rightarrow> (Inr validatedData, s))))"

section \<open>Requests and tasks\<close>

text \<open>
  \<open>xs.findIndex(p)\<close>: \<open>None\<close> is \<open>-1\<close>. \<open>xs.find(p) || null\<close> is \<^const>\<open>find\<close>, and
  \<open>xs.splice(i, 1)\<close> is \<open>splice1\<close>.
\<close>

fun findIndex :: "('a \<Rightarrow> bool) \<Rightarrow> 'a list \<Rightarrow> nat option" where
  "findIndex p [] = None"
| "findIndex p (x # xs) = (if p x then Some 0 else map_option Suc (findIndex p xs))"

definition splice1 :: "nat \<Rightarrow> 'a list \<Rightarrow> 'a list" where
  "splice1 i xs = take i xs @ drop (Suc i) xs"

text \<open>
  The loop that generates an identifier: \<open>while (existingIds.includes(`prefix${newId}`))
  newId++\<close>. It ends because the numbers print differently and the list is finite.
\<close>

function next_free :: "string \<Rightarrow> string list \<Rightarrow> nat \<Rightarrow> nat" where
  "next_free prefix existingIds newId =
     (if prefix @ show_nat newId \<in> set existingIds
      then next_free prefix existingIds (Suc newId)
      else newId)"
  by pat_completeness auto
termination
proof (relation "measure (\<lambda>(prefix, existingIds, newId).
                   card {k. newId \<le> k \<and> prefix @ show_nat k \<in> set existingIds})")
  show "wf (measure (\<lambda>(prefix, existingIds, newId).
                   card {k. newId \<le> k \<and> prefix @ show_nat k \<in> set existingIds}))"
    by simp
next
  fix prefix :: string and existingIds :: "string list" and newId :: nat
  assume mem: "prefix @ show_nat newId \<in> set existingIds"
  have digit_inj: "digit_char a = digit_char b \<Longrightarrow> a = b" if "a < 10" "b < 10" for a b
  proof -
    assume "digit_char a = digit_char b"
    then have "of_char (char_of (48 + a)) = (of_char (char_of (48 + b)) :: nat)"
      by (simp add: digit_char_def)
    with that show "a = b" by simp
  qed
  have len: "n < 10 \<longleftrightarrow> length (show_nat n) = 1" for n
  proof (cases "n < 10")
    case True
    then show ?thesis by (simp add: show_nat.simps [of n])
  next
    case False
    have "length (show_nat (n div 10)) \<ge> 1"
      by (cases "n div 10 < 10") (simp_all add: show_nat.simps [of "n div 10"])
    with False show ?thesis
      by (auto simp add: show_nat.simps [of n])
  qed
  have inj: "show_nat n = show_nat m \<Longrightarrow> n = m" for n m
  proof (induction n arbitrary: m rule: show_nat.induct)
    case (1 n)
    show ?case
    proof (cases "n < 10")
      case True
      with "1.prems" len [of n] len [of m] have m: "m < 10" by simp
      from "1.prems" True m have "digit_char n = digit_char m"
        by (simp add: show_nat.simps [of n] show_nat.simps [of m])
      with True m show ?thesis using digit_inj by blast
    next
      case False
      with "1.prems" len [of n] len [of m] have m: "\<not> m < 10" by simp
      from "1.prems" False m
      have eq: "show_nat (n div 10) @ [digit_char (n mod 10)]
                = show_nat (m div 10) @ [digit_char (m mod 10)]"
        by (simp add: show_nat.simps [of n] show_nat.simps [of m])
      then have "show_nat (n div 10) = show_nat (m div 10)"
        and d: "digit_char (n mod 10) = digit_char (m mod 10)"
        by simp_all
      with "1.IH" False have "n div 10 = m div 10" by blast
      moreover from d have "n mod 10 = m mod 10"
        using digit_inj [of "n mod 10" "m mod 10"] by simp
      ultimately show ?thesis
        by (metis div_mult_mod_eq)
    qed
  qed
  let ?A = "\<lambda>i. {k. i \<le> k \<and> prefix @ show_nat k \<in> set existingIds}"
  have "inj (\<lambda>k. prefix @ show_nat k)"
    by (rule injI) (use inj in simp)
  then have "finite ((\<lambda>k. prefix @ show_nat k) -` set existingIds)"
    by (intro finite_vimageI) simp_all
  then have fin: "finite (?A newId)"
    by (rule rev_finite_subset) auto
  have "newId \<in> ?A newId" and "newId \<notin> ?A (Suc newId)" and "?A (Suc newId) \<subseteq> ?A newId"
    using mem by auto
  then have "?A (Suc newId) \<subset> ?A newId"
    by blast
  with fin have "card (?A (Suc newId)) < card (?A newId)"
    by (rule psubset_card_mono)
  then show "((prefix, existingIds, Suc newId), (prefix, existingIds, newId))
        \<in> measure (\<lambda>(prefix, existingIds, newId).
                   card {k. newId \<le> k \<and> prefix @ show_nat k \<in> set existingIds})"
    by simp
qed

declare next_free.simps [simp del]

text \<open>
  The input of \<open>createRequest\<close> and \<open>createTask\<close>. Its type leaves the identifier out,
  but the object a caller passes may carry one (the route handlers pass one); the
  first field is that property, \<open>None\<close> when it is absent.
\<close>

record RequestInput =
  in_requestId :: "string option"
  in_originalRequest :: string
  in_splitDetails :: string
  in_tasks :: "Task list"
  in_completed :: bool

record TaskInput =
  in_id :: "string option"
  in_title :: string
  in_description :: string
  in_done :: bool
  in_approved :: bool
  in_completedDetails :: string

text \<open>\<open>Partial<Request>\<close> and \<open>Partial<Task>\<close>: \<open>None\<close> is a property that is absent.\<close>

record RequestUpdates =
  upd_requestId :: "string option"
  upd_originalRequest :: "string option"
  upd_splitDetails :: "string option"
  upd_tasks :: "Task list option"
  upd_completed :: "bool option"

record TaskUpdates =
  upd_id :: "string option"
  upd_title :: "string option"
  upd_description :: "string option"
  upd_done :: "bool option"
  upd_approved :: "bool option"
  upd_completedDetails :: "string option"

text \<open>
  An object literal with a spread: \<open>{ requestId: generated, ...requestData }\<close> and
  \<open>{ ...existing, ...updates }\<close>. A property of the spread object replaces the one
  written before it.
\<close>

definition or_else :: "'a option \<Rightarrow> 'a \<Rightarrow> 'a" where
  "or_else v d = (case v of Some x \<Rightarrow> x | None \<Rightarrow> d)"

definition new_Request :: "string \<Rightarrow> RequestInput \<Rightarrow> Request" where
  "new_Request generated requestData =
     \<lparr>requestId = or_else (in_requestId requestData) generated,
      originalRequest = in_originalRequest requestData,
      splitDetails = in_splitDetails requestData,
      tasks = in_tasks requestData,
      completed = in_completed requestData\<rparr>"

definition new_Task :: "string \<Rightarrow> TaskInput \<Rightarrow> Task" where
  "new_Task generated taskData =
     \<lparr>id_task = or_else (in_id taskData) generated,
      title = in_title taskData,
      description = in_description taskData,
      done = in_done taskData,
      approved = in_approved taskData,
      completedDetails = in_completedDetails taskData\<rparr>"

definition merge_Request :: "Request \<Rightarrow> RequestUpdates \<Rightarrow> Request" where
  "merge_Request r updates =
     \<lparr>requestId = or_else (upd_requestId updates) (requestId r),
      originalRequest = or_else (upd_originalRequest updates) (originalRequest r),
      splitDetails = or_else (upd_splitDetails updates) (splitDetails r),
      tasks = or_else (upd_tasks updates) (tasks r),
      completed = or_else (upd_completed updates) (completed r)\<rparr>"

definition merge_Task :: "Task \<Rightarrow> TaskUpdates \<Rightarrow> Task" where
  "merge_Task t updates =
     \<lparr>id_task = or_else (upd_id updates) (id_task t),
      title = or_else (upd_title updates) (title t),
      description = or_else (upd_description updates) (description t),
      done = or_else (upd_done updates) (done t),
      approved = or_else (upd_approved updates) (approved t),
      completedDetails = or_else (upd_completedDetails updates) (completedDetails t)\<rparr>"

definition NotFound_Request :: error where
  "NotFound_Request = ApiError ''Request not found'' 404"

definition NotFound_Task :: error where
  "NotFound_Task = ApiError ''Task not found'' 404"

definition getRequest :: "digest \<Rightarrow> string \<Rightarrow> state \<Rightarrow> (error + Request option) \<times> state" where
  "getRequest sha256 rid s =
     (case loadData sha256 s of
        (Inl e, s1) \<Rightarrow> (Inl e, s1)
      | (Inr d, s1) \<Rightarrow> (Inr (find (\<lambda>request. requestId request = rid) (requests d)), s1))"

definition createRequest :: "digest \<Rightarrow> RequestInput \<Rightarrow> state \<Rightarrow> (error + Request) \<times> state" where
  "createRequest sha256 requestData s =
     (case loadData sha256 s of
        (Inl e, s1) \<Rightarrow> (Inl e, s1)
      | (Inr d, s1) \<Rightarrow>
          (let existingIds = map requestId (requests d);
               newId = next_free ''req-'' existingIds 1;
               newRequest = new_Request (''req-'' @ show_nat newId) requestData
           in case RequestSchema_parse (json_of_Request newRequest) of
                None \<Rightarrow> (Inl ZodError, s1)
              | Some _ \<Rightarrow>
                  (case saveData sha256 (d\<lparr>requests := requests d @ [newRequest]\<rparr>) s1 of
                     (Inl e, s2) \<Rightarrow> (Inl e, s2)
                   | (Inr _, s2) \<Rightarrow> (Inr newRequest, s2))))"

definition updateRequest :: "digest \<Rightarrow> string \<Rightarrow> RequestUpdates \<Rightarrow> state \<Rightarrow> (error + Request) \<times> state" where
  "updateRequest sha256 rid updates s =
     (case loadData sha256 s of
        (Inl e, s1) \<Rightarrow> (Inl e, s1)
      | (Inr d, s1) \<Rightarrow>
          (case findIndex (\<lambda>r. requestId r = rid) (requests d) of
             None \<Rightarrow> (Inl NotFound_Request, s1)
           | Some requestIndex \<Rightarrow>
               (let updatedRequest = merge_Request (requests d ! requestIndex) updates
                in case RequestSchema_parse (json_of_Request updatedRequest) of
                     None \<Rightarrow> (Inl ZodError, s1)
                   | Some _ \<Rightarrow>
                       (case saveData sha256
                               (d\<lparr>requests := (requests d)[requestIndex := updatedRequest]\<rparr>) s1 of
                          (Inl e, s2) \<Rightarrow> (Inl e, s2)
                        | (Inr _, s2) \<Rightarrow> (Inr updatedRequest, s2)))))"

definition deleteRequest :: "digest \<Rightarrow> string \<Rightarrow> state \<Rightarrow> (error + unit) \<times> state" where
  "deleteRequest sha256 rid s =
     (case loadData sha256 s of
        (Inl e, s1) \<Rightarrow> (Inl e, s1)
      | (Inr d, s1) \<Rightarrow>
          (case findIndex (\<lambda>r. requestId r = rid) (requests d) of
             None \<Rightarrow> (Inl NotFound_Request, s1)
           | Some requestIndex \<Rightarrow>
               saveData sha256 (d\<lparr>requests := splice1 requestIndex (requests d)\<rparr>) s1))"

definition getTask :: "digest \<Rightarrow> string \<Rightarrow> string \<Rightarrow> state \<Rightarrow> (error + Task option) \<times> state" where
  "getTask sha256 rid tid s =
     (case getRequest sha256 rid s of
        (Inl e, s1) \<Rightarrow> (Inl e, s1)
      | (Inr None, s1) \<Rightarrow> (Inr None, s1)
      | (Inr (Some request), s1) \<Rightarrow> (Inr (find (\<lambda>task. id_task task = tid) (tasks request)), s1))"

text \<open>Replacing the task list of the request at an index, as the in-place changes do.\<close>

definition set_tasks :: "TasksData \<Rightarrow> nat \<Rightarrow> Task list \<Rightarrow> TasksData" where
  "set_tasks d requestIndex ts =
     d\<lparr>requests := (requests d)[requestIndex := (requests d ! requestIndex)\<lparr>tasks := ts\<rparr>]\<rparr>"

definition createTask :: "digest \<Rightarrow> string \<Rightarrow> TaskInput \<Rightarrow> state \<Rightarrow> (error + Task) \<times> state" where
  "createTask sha256 rid taskData s =
     (case loadData sha256 s of
        (Inl e, s1) \<Rightarrow> (Inl e, s1)
      | (Inr d, s1) \<Rightarrow>
          (case findIndex (\<lambda>r. requestId r = rid) (requests d) of
             None \<Rightarrow> (Inl NotFound_Request, s1)
           | Some requestIndex \<Rightarrow>
               (let existingIds = map id_task (tasks (requests d ! requestIndex));
                    newId = next_free ''task-'' existingIds 1;
                    newTask = new_Task (''task-'' @ show_nat newId) taskData
                in case TaskSchema_parse (json_of_Task newTask) of
                     None \<Rightarrow> (Inl ZodError, s1)
                   | Some _ \<Rightarrow>
                       (case saveData sha256
                               (set_tasks d requestIndex
                                  (tasks (requests d ! requestIndex) @ [newTask])) s1 of
                          (Inl e, s2) \<Rightarrow> (Inl e, s2)
                        | (Inr _, s2) \<Rightarrow> (Inr newTask, s2)))))"

definition updateTask :: "digest \<Rightarrow> string \<Rightarrow> string \<Rightarrow> TaskUpdates \<Rightarrow> state \<Rightarrow> (error + Task) \<times> state" where
  "updateTask sha256 rid tid updates s =
     (case loadData sha256 s of
        (Inl e, s1) \<Rightarrow> (Inl e, s1)
      | (Inr d, s1) \<Rightarrow>
          (case findIndex (\<lambda>r. requestId r = rid) (requests d) of
             None \<Rightarrow> (Inl NotFound_Request, s1)
           | Some requestIndex \<Rightarrow>
               (case findIndex (\<lambda>t. id_task t = tid) (tasks (requests d ! requestIndex)) of
                  None \<Rightarrow> (Inl NotFound_Task, s1)
                | Some taskIndex \<Rightarrow>
                    (let updatedTask =
                           merge_Task (tasks (requests d ! requestIndex) ! taskIndex) updates
                     in case TaskSchema_parse (json_of_Task updatedTask) of
                          None \<Rightarrow> (Inl ZodError, s1)
                        | Some _ \<Rightarrow>
                            (case saveData sha256
                                    (set_tasks d requestIndex
                                       ((tasks (requests d ! requestIndex))
                                          [taskIndex := updatedTask])) s1 of
                               (Inl e, s2) \<Rightarrow> (Inl e, s2)
                             | (Inr _, s2) \<Rightarrow> (Inr updatedTask, s2))))))"

definition deleteTask :: "digest \<Rightarrow> string \<Rightarrow> string \<Rightarrow> state \<Rightarrow> (error + unit) \<times> state" where
  "deleteTask sha256 rid tid s =
     (case loadData sha256 s of
        (Inl e, s1) \<Rightarrow> (Inl e, s1)
      | (Inr d, s1) \<Rightarrow>
          (case findIndex (\<lambda>r. requestId r = rid) (requests d) of
             None \<Rightarrow> (Inl NotFound_Request, s1)
           | Some requestIndex \<Rightarrow>
               (case findIndex (\<lambda>t. id_task t = tid) (tasks (requests d ! requestIndex)) of
                  None \<Rightarrow> (Inl NotFound_Task, s1)
                | Some taskIndex \<Rightarrow>
                    saveData sha256
                      (set_tasks d requestIndex
                         (splice1 taskIndex (tasks (requests d ! requestIndex)))) s1)))"

section \<open>Summaries\<close>










section \<open>Predicates of the statements\<close>

text \<open>
  The values for which parsing is shown to undo printing: no number, and no object with
  a repeated key. Every document is one.
\<close>

fun wf_json :: "json \<Rightarrow> bool" where
  "wf_json (JNumber n) = False"
| "wf_json (JArray xs) = (\<forall>x \<in> set xs. wf_json x)"
| "wf_json (JObject kvs) = (distinct (map fst kvs) \<and> (\<forall>kv \<in> set kvs. wf_json (snd kv)))"
| "wf_json v = True"

text \<open>A text of white space only.\<close>

definition blank :: "string \<Rightarrow> bool" where
  "blank w = (\<forall>c \<in> set w. is_ws c)"

text \<open>What the schemas demand of a document that has the type of a document.\<close>

definition valid_Task :: "Task \<Rightarrow> bool" where
  "valid_Task t = (1 \<le> length (id_task t) \<and> 1 \<le> length (title t) \<and> length (title t) \<le> 200
                   \<and> 1 \<le> length (description t))"

definition valid_Request :: "Request \<Rightarrow> bool" where
  "valid_Request r = (1 \<le> length (requestId r) \<and> 1 \<le> length (originalRequest r)
                      \<and> list_all valid_Task (tasks r))"

definition valid_TasksData :: "TasksData \<Rightarrow> bool" where
  "valid_TasksData d = list_all valid_Request (requests d)"

section \<open>Example inputs\<close>

text \<open>
  A stand-in for the digest where a statement is tried on a concrete input: every text
  is its own checksum.
\<close>

definition plain_digest :: digest where
  "plain_digest w = w"

text \<open>A machine with no file of the service, on 10 June 2024.\<close>

definition state0 :: state where
  "state0 = \<lparr>now = 1718000000123, TASKS_FILE = None, TASKS_FILE_checksum = None,
              TASKS_FILE_tmp = None, TASKS_FILE_tmp_checksum = None, LOCK_FILE = None,
              BACKUP_DIR = None, lockFile = None\<rparr>"

definition task1 :: Task where
  "task1 = \<lparr>id_task = ''task-1'', title = ''Test Task'', description = ''Test task description'',
             done = False, approved = False, completedDetails = []\<rparr>"

definition request1 :: Request where
  "request1 = \<lparr>requestId = ''req-1'', originalRequest = ''Test request'',
                splitDetails = ''Test split details'', tasks = [task1], completed = False\<rparr>"

definition doc1 :: TasksData where
  "doc1 = \<lparr>requests = [request1]\<rparr>"

text \<open>Ten manual backups of January 2024.\<close>

definition manual_backups :: "(string \<times> string) list" where
  "manual_backups =
     [(''tasks-manual-2024-01-01T00-00-00-000Z.json'', []),
      (''tasks-manual-2024-01-02T00-00-00-000Z.json'', []),
      (''tasks-manual-2024-01-03T00-00-00-000Z.json'', []),
      (''tasks-manual-2024-01-04T00-00-00-000Z.json'', []),
      (''tasks-manual-2024-01-05T00-00-00-000Z.json'', []),
      (''tasks-manual-2024-01-06T00-00-00-000Z.json'', []),
      (''tasks-manual-2024-01-07T00-00-00-000Z.json'', []),
      (''tasks-manual-2024-01-08T00-00-00-000Z.json'', []),
      (''tasks-manual-2024-01-09T00-00-00-000Z.json'', []),
      (''tasks-manual-2024-01-10T00-00-00-000Z.json'', [])]"

text \<open>The live file holds the document of the tests.\<close>

definition state1 :: state where
  "state1 = state0\<lparr>TASKS_FILE := Some (JSON_stringify2 (json_of_TasksData doc1))\<rparr>"

text \<open>
  \<open>N\<close> is the smallest positive number whose identifier with the prefix is not among
  the given identifiers.
\<close>

definition least_free :: "string \<Rightarrow> string list \<Rightarrow> nat \<Rightarrow> bool" where
  "least_free prefix ids N =
     (1 \<le> N \<and> prefix @ show_nat N \<notin> set ids
      \<and> (\<forall>k. 1 \<le> k \<and> k < N \<longrightarrow> prefix @ show_nat k \<in> set ids))"

text \<open>Inputs that carry an identifier.\<close>

definition request_input_with_id :: RequestInput where
  "request_input_with_id =
     \<lparr>in_requestId = Some ''custom'', in_originalRequest = ''New test request'',
      in_splitDetails = ''New split details'', in_tasks = [], in_completed = False\<rparr>"

definition task_updates_with_id :: TaskUpdates where
  "task_updates_with_id =
     \<lparr>upd_id = Some ''task-9'', upd_title = None, upd_description = None, upd_done = Some True,
      upd_approved = None, upd_completedDetails = None\<rparr>"

definition request_updates_title :: RequestUpdates where
  "request_updates_title =
     \<lparr>upd_requestId = None, upd_originalRequest = Some ''Updated request'',
      upd_splitDetails = None, upd_tasks = None, upd_completed = Some True\<rparr>"

definition task_updates_done :: TaskUpdates where
  "task_updates_done =
     \<lparr>upd_id = None, upd_title = Some ''Updated task'', upd_description = None,
      upd_done = Some True, upd_approved = Some True, upd_completedDetails = None\<rparr>"

definition request_input :: RequestInput where
  "request_input =
     \<lparr>in_requestId = None, in_originalRequest = ''New test request'',
      in_splitDetails = ''New split details'', in_tasks = [], in_completed = False\<rparr>"

definition task_input :: TaskInput where
  "task_input =
     \<lparr>in_id = None, in_title = ''New task'', in_description = ''New task description'',
      in_done = False, in_approved = False, in_completedDetails = []\<rparr>"

text \<open>A request with four tasks, two of them done and one approved.\<close>

definition task1_done :: Task where
  "task1_done = task1\<lparr>done := True, approved := True\<rparr>"

definition task2 :: Task where
  "task2 = \<lparr>id_task = ''task-2'', title = ''Second task'', description = ''Second description'',
             done = True, approved = False, completedDetails = []\<rparr>"

definition task3 :: Task where
  "task3 = \<lparr>id_task = ''task-3'', title = ''Third task'', description = ''Third description'',
             done = False, approved = False, completedDetails = []\<rparr>"

definition task4 :: Task where
  "task4 = \<lparr>id_task = ''task-4'', title = ''Fourth task'', description = ''Fourth description'',
             done = False, approved = False, completedDetails = []\<rparr>"

definition request4 :: Request where
  "request4 =
     \<lparr>requestId = ''req-4'', originalRequest = ''Four tasks'', splitDetails = [],
      tasks = [task1_done, task2, task3, task4], completed = False\<rparr>"

text \<open>The live file holds a document of two requests.\<close>

definition doc2 :: TasksData where
  "doc2 = \<lparr>requests = [request1, request4]\<rparr>"

definition state2 :: state where
  "state2 = state0\<lparr>TASKS_FILE := Some (JSON_stringify2 (json_of_TasksData doc2))\<rparr>"




section \<open>Parsing undoes printing\<close>


lemma skip_ws_blank: "blank w \<Longrightarrow> skip_ws (w @ s) = skip_ws s"
  by (induction w) (simp_all add: blank_def skip_ws_def)

lemma skip_ws_Cons: "\<not> is_ws c \<Longrightarrow> skip_ws (c # s) = c # s"
  by (simp add: skip_ws_def)

lemma blank_sep: "blank gap \<Longrightarrow> blank ind \<Longrightarrow> blank (sep gap ind)"
  by (simp add: blank_def sep_def is_ws_def nl_def)

lemma blank_append: "blank a \<Longrightarrow> blank b \<Longrightarrow> blank (a @ b)"
  by (auto simp: blank_def)

lemma hex_digit_val: "n < 16 \<Longrightarrow> hex_val (hex_digit n) = Some n"
proof -
  assume "n < 16"
  then have "n \<in> set [0..<16]" by simp
  then show ?thesis
    by (auto simp add: hex_digit_def hex_val_def upt_rec)
qed

lemma hex4_escape:
  assumes "n < 256"
  shows "hex4 CHR ''0'' CHR ''0'' (hex_digit (n div 16)) (hex_digit (n mod 16)) = Some n"
proof -
  have "hex_val CHR ''0'' = Some 0" by (simp add: hex_val_def)
  moreover have "hex_val (hex_digit (n div 16)) = Some (n div 16)"
    using assms by (intro hex_digit_val) simp
  moreover have "hex_val (hex_digit (n mod 16)) = Some (n mod 16)"
    by (intro hex_digit_val) simp
  ultimately show ?thesis by (simp add: hex4_def)
qed

lemma parse_string_escape:
  "parse_string (escape_char c @ s) = cons_result c (parse_string s)"
proof -
  consider "c = dq" | "c = bslash" | "c = CHR 0x08" | "c = CHR 0x0C" | "c = CHR 0x0A"
    | "c = CHR 0x0D" | "c = CHR 0x09"
    | "c \<notin> {dq, bslash, CHR 0x08, CHR 0x0C, CHR 0x0A, CHR 0x0D, CHR 0x09}" "(of_char c :: nat) < 0x20"
    | "c \<notin> {dq, bslash, CHR 0x08, CHR 0x0C, CHR 0x0A, CHR 0x0D, CHR 0x09}" "\<not> (of_char c :: nat) < 0x20"
    by blast
  then show ?thesis
  proof cases
    case 8
    have "(of_char c :: nat) < 256" using 8 by simp
    from hex4_escape [OF this] 8 show ?thesis
      by (simp add: escape_char_def dq_def bslash_def)
  qed (simp_all add: escape_char_def unescape_def dq_def bslash_def)
qed

lemma parse_string_quote:
  "parse_string (concat (map escape_char s) @ dq # rest) = Some (s, rest)"
  by (induction s) (simp_all add: parse_string_escape cons_result_def)

lemma obj_put_fresh: "fst kv \<notin> fst ` set acc \<Longrightarrow> obj_put acc kv = acc @ [kv]"
  by (induction acc) auto

lemma foldl_obj_put: "distinct (map fst (acc @ kvs)) \<Longrightarrow> foldl obj_put acc kvs = acc @ kvs"
proof (induction kvs arbitrary: acc)
  case Nil
  then show ?case by simp
next
  case (Cons kv kvs)
  then have "obj_put acc kv = acc @ [kv]" by (intro obj_put_fresh) auto
  with Cons.IH [of "acc @ [kv]"] Cons.prems show ?case by simp
qed

lemma ser_first:
  "wf_json v \<Longrightarrow> \<exists>c t. ser gap ind v = c # t \<and> \<not> is_ws c \<and> c \<noteq> CHR '']'' \<and> c \<noteq> CHR ''}''"
proof (cases v)
  case (JArray xs)
  then show ?thesis by (cases xs) (simp_all add: is_ws_def)
next
  case (JObject kvs)
  then show ?thesis by (cases kvs) (simp_all add: is_ws_def)
qed (simp_all add: is_ws_def quote_def dq_def)

lemma ser_nonempty: "wf_json v \<Longrightarrow> 1 \<le> length (ser gap ind v)"
  using ser_first [of v gap ind] by auto

lemma skip_ws_ser: "wf_json v \<Longrightarrow> skip_ws (ser gap ind v @ s) = ser gap ind v @ s"
  using ser_first [of v gap ind] by (auto simp: skip_ws_Cons)

lemma parse_elements_ser:
  assumes "\<And>x n rest. x \<in> set (x0 # xs) \<Longrightarrow> length (ser gap ind x) \<le> n
             \<Longrightarrow> parse_value n (ser gap ind x @ rest) = Some (x, rest)"
    and "\<forall>x \<in> set (x0 # xs). wf_json x" and "blank gap" and "blank ind" and "blank w"
    and "length (ser gap ind x0) + length (ser_list gap ind xs) < n"
  shows "parse_elements n (ser gap ind x0 @ ser_list gap ind xs @ w @ CHR '']'' # rest)
         = Some (x0 # xs, rest)"
  using assms
proof (induction xs arbitrary: x0 n)
  case Nil
  then obtain m where n: "n = Suc m" by (cases n) auto
  with Nil.prems have "parse_value m (ser gap ind x0 @ w @ CHR '']'' # rest)
      = Some (x0, w @ CHR '']'' # rest)"
    by simp
  moreover have "skip_ws (w @ CHR '']'' # rest) = CHR '']'' # rest"
    using \<open>blank w\<close> by (simp add: skip_ws_blank skip_ws_Cons is_ws_def)
  ultimately show ?case by (simp add: n)
next
  case (Cons y ys)
  then obtain m where n: "n = Suc m" by (cases n) auto
  let ?tail = "ser gap ind y @ ser_list gap ind ys @ w @ CHR '']'' # rest"
  have wfy: "wf_json y" and wfx: "wf_json x0" using Cons.prems(2) by auto
  have 1: "parse_value m (ser gap ind x0 @ CHR '','' # sep gap ind @ ?tail)
      = Some (x0, CHR '','' # sep gap ind @ ?tail)"
    using Cons.prems(1) [of x0 m] Cons.prems(6) n by simp
  have 2: "skip_ws (CHR '','' # sep gap ind @ ?tail) = CHR '','' # sep gap ind @ ?tail"
    by (simp add: skip_ws_Cons is_ws_def)
  have 3: "skip_ws (sep gap ind @ ?tail) = ?tail"
    using blank_sep [OF \<open>blank gap\<close> \<open>blank ind\<close>] skip_ws_ser [OF wfy]
    by (simp add: skip_ws_blank)
  have len: "length (ser gap ind y) + length (ser_list gap ind ys) < m"
    using Cons.prems(6) n ser_nonempty [OF wfx, of gap ind] by simp
  have 4: "parse_elements m ?tail = Some (y # ys, rest)"
    using Cons.prems(1,2) by (intro Cons.IH) (auto intro: \<open>blank gap\<close> \<open>blank ind\<close> \<open>blank w\<close> len)
  show ?case
    using 1 2 3 4 by (simp add: n cons_result_def)
qed

lemma colon_blank: "\<exists>b. colon gap = CHR '':'' # b \<and> blank b"
  by (simp add: colon_def blank_def is_ws_def)

lemma parse_members_ser:
  assumes "\<And>kv n rest. kv \<in> set (kv0 # kvs) \<Longrightarrow> length (ser gap ind (snd kv)) \<le> n
             \<Longrightarrow> parse_value n (ser gap ind (snd kv) @ rest) = Some (snd kv, rest)"
    and "\<forall>kv \<in> set (kv0 # kvs). wf_json (snd kv)"
    and "blank gap" and "blank ind" and "blank w"
    and "length (quote (fst kv0)) + length (ser gap ind (snd kv0))
           + length (ser_members gap ind kvs) < n"
  shows "parse_members n (quote (fst kv0) @ colon gap @ ser gap ind (snd kv0)
                            @ ser_members gap ind kvs @ w @ CHR ''}'' # rest)
         = Some (kv0 # kvs, rest)"
  using assms
proof (induction kvs arbitrary: kv0 n)
  case Nil
  then obtain m where n: "n = Suc m" by (cases n) auto
  obtain b where b: "colon gap = CHR '':'' # b" "blank b" using colon_blank by blast
  let ?r3 = "w @ CHR ''}'' # rest"
  have wf0: "wf_json (snd kv0)" using Nil.prems(2) by simp
  have 1: "parse_string (concat (map escape_char (fst kv0)) @ dq # colon gap
              @ ser gap ind (snd kv0) @ ?r3)
           = Some (fst kv0, colon gap @ ser gap ind (snd kv0) @ ?r3)"
    by (rule parse_string_quote)
  have 2: "skip_ws (colon gap @ ser gap ind (snd kv0) @ ?r3)
           = CHR '':'' # b @ ser gap ind (snd kv0) @ ?r3"
    by (simp add: b skip_ws_Cons is_ws_def)
  have 3: "skip_ws (b @ ser gap ind (snd kv0) @ ?r3) = ser gap ind (snd kv0) @ ?r3"
    using b(2) skip_ws_ser [OF wf0] by (simp add: skip_ws_blank)
  have 4: "parse_value m (ser gap ind (snd kv0) @ ?r3) = Some (snd kv0, ?r3)"
    using Nil.prems(1) [of kv0 m] Nil.prems(6) n by simp
  have 5: "skip_ws ?r3 = CHR ''}'' # rest"
    using \<open>blank w\<close> by (simp add: skip_ws_blank skip_ws_Cons is_ws_def)
  show ?case
    using 1 2 3 4 5 by (simp add: n quote_def)
next
  case (Cons kv1 kvs)
  then obtain m where n: "n = Suc m" by (cases n) auto
  obtain b where b: "colon gap = CHR '':'' # b" "blank b" using colon_blank by blast
  let ?tail = "quote (fst kv1) @ colon gap @ ser gap ind (snd kv1)
                 @ ser_members gap ind kvs @ w @ CHR ''}'' # rest"
  let ?r3 = "CHR '','' # sep gap ind @ ?tail"
  have wf0: "wf_json (snd kv0)" and wf1: "wf_json (snd kv1)" using Cons.prems(2) by auto
  have 1: "parse_string (concat (map escape_char (fst kv0)) @ dq # colon gap
              @ ser gap ind (snd kv0) @ ?r3)
           = Some (fst kv0, colon gap @ ser gap ind (snd kv0) @ ?r3)"
    by (rule parse_string_quote)
  have 2: "skip_ws (colon gap @ ser gap ind (snd kv0) @ ?r3)
           = CHR '':'' # b @ ser gap ind (snd kv0) @ ?r3"
    by (simp add: b skip_ws_Cons is_ws_def)
  have 3: "skip_ws (b @ ser gap ind (snd kv0) @ ?r3) = ser gap ind (snd kv0) @ ?r3"
    using b(2) skip_ws_ser [OF wf0] by (simp add: skip_ws_blank)
  have 4: "parse_value m (ser gap ind (snd kv0) @ ?r3) = Some (snd kv0, ?r3)"
    using Cons.prems(1) [of kv0 m] Cons.prems(6) n by simp
  have 5: "skip_ws ?r3 = ?r3"
    by (simp add: skip_ws_Cons is_ws_def)
  have 6: "skip_ws (sep gap ind @ ?tail) = ?tail"
    using blank_sep [OF \<open>blank gap\<close> \<open>blank ind\<close>]
    by (simp add: skip_ws_blank) (simp add: quote_def skip_ws_Cons is_ws_def dq_def)
  have len: "length (quote (fst kv1)) + length (ser gap ind (snd kv1))
               + length (ser_members gap ind kvs) < m"
    using Cons.prems(6) n by simp
  have 7: "parse_members m ?tail = Some (kv1 # kvs, rest)"
    using Cons.prems(1,2) by (intro Cons.IH) (auto intro: \<open>blank gap\<close> \<open>blank ind\<close> \<open>blank w\<close> len)
  show ?case
    using 1 2 3 4 5 6 7 by (simp add: n quote_def cons_result_def)
qed

lemma parse_value_ser:
  "wf_json v \<Longrightarrow> blank gap \<Longrightarrow> blank ind \<Longrightarrow> length (ser gap ind v) \<le> n
     \<Longrightarrow> parse_value n (ser gap ind v @ rest) = Some (v, rest)"
proof (induction v arbitrary: ind n rest)
  case JNull
  then obtain m where "n = Suc m" by (cases n) auto
  then show ?case by (simp add: startsWith_def dq_def)
next
  case (JBool b)
  then obtain m where "n = Suc m" by (cases n; cases b) auto
  then show ?case by (cases b) (simp_all add: startsWith_def dq_def)
next
  case (JNumber x)
  then show ?case by simp
next
  case (JString x)
  then obtain m where "n = Suc m" by (cases n) (auto simp: quote_def)
  then show ?case
    using parse_string_quote [of x rest] by (simp add: quote_def dq_def)
next
  case (JArray xs)
  show ?case
  proof (cases xs)
    case Nil
    with JArray.prems obtain m where "n = Suc m" by (cases n) auto
    with Nil show ?thesis by (simp add: skip_ws_Cons is_ws_def)
  next
    case (Cons x0 xs')
    with JArray.prems obtain m where n: "n = Suc m" by (cases n) auto
    let ?ind = "ind @ gap"
    let ?body = "ser gap ?ind x0 @ ser_list gap ?ind xs' @ sep gap ind @ CHR '']'' # rest"
    have bl: "blank ?ind" using JArray.prems by (simp add: blank_append)
    have wf: "\<forall>x \<in> set (x0 # xs'). wf_json x" using JArray.prems(1) Cons by simp
    have 1: "skip_ws (sep gap ?ind @ ?body) = ?body"
      using blank_sep [OF \<open>blank gap\<close> bl] skip_ws_ser [of x0] wf by (simp add: skip_ws_blank)
    obtain c t where ct: "ser gap ?ind x0 = c # t" "c \<noteq> CHR '']''"
      using ser_first [of x0 gap ?ind] wf by auto
    have len: "length (ser gap ?ind x0) + length (ser_list gap ?ind xs') < m"
      using JArray.prems(4) Cons n by simp
    have 2: "parse_elements m ?body = Some (x0 # xs', rest)"
    proof (rule parse_elements_ser [OF _ wf \<open>blank gap\<close> bl blank_sep [OF \<open>blank gap\<close> \<open>blank ind\<close>] len])
      fix x k r
      assume "x \<in> set (x0 # xs')" "length (ser gap ?ind x) \<le> k"
      then show "parse_value k (ser gap ?ind x @ r) = Some (x, r)"
        using JArray.IH [of x ?ind k r] wf Cons \<open>blank gap\<close> bl by simp
    qed
    have 3: "skip_ws (sep gap ?ind @ ?body) = c # t @ ser_list gap ?ind xs' @ sep gap ind @ CHR '']'' # rest"
      using 1 ct by simp
    show ?thesis
      using 2 3 ct by (simp add: Cons n)
  qed
next
  case (JObject kvs)
  show ?case
  proof (cases kvs)
    case Nil
    with JObject.prems obtain m where "n = Suc m" by (cases n) auto
    with Nil show ?thesis by (simp add: skip_ws_Cons is_ws_def)
  next
    case (Cons kv0 kvs')
    with JObject.prems obtain m where n: "n = Suc m" by (cases n) auto
    let ?ind = "ind @ gap"
    let ?rest = "colon gap @ ser gap ?ind (snd kv0) @ ser_members gap ?ind kvs'
                   @ sep gap ind @ CHR ''}'' # rest"
    let ?body = "quote (fst kv0) @ ?rest"
    have bl: "blank ?ind" using JObject.prems by (simp add: blank_append)
    have wf: "\<forall>kv \<in> set (kv0 # kvs'). wf_json (snd kv)" and dist: "distinct (map fst kvs)"
      using JObject.prems(1) Cons by simp_all
    have body: "?body = dq # concat (map escape_char (fst kv0)) @ dq # ?rest"
      by (simp add: quote_def)
    have 1: "skip_ws (sep gap ?ind @ ?body) = ?body"
      using blank_sep [OF \<open>blank gap\<close> bl]
      by (simp add: skip_ws_blank) (simp add: quote_def skip_ws_Cons is_ws_def dq_def)
    have len: "length (quote (fst kv0)) + length (ser gap ?ind (snd kv0))
                 + length (ser_members gap ?ind kvs') < m"
      using JObject.prems(4) Cons n by simp
    have 2: "parse_members m ?body = Some (kv0 # kvs', rest)"
    proof (rule parse_members_ser [OF _ wf \<open>blank gap\<close> bl blank_sep [OF \<open>blank gap\<close> \<open>blank ind\<close>] len])
      fix kv k r
      assume kv: "kv \<in> set (kv0 # kvs')" and k: "length (ser gap ?ind (snd kv)) \<le> k"
      obtain a b where ab: "kv = (a, b)" by (cases kv)
      have "parse_value k (ser gap ?ind b @ r) = Some (b, r)"
      proof (rule JObject.IH [of kv b])
        show "kv \<in> set kvs" using kv Cons by simp
        show "b \<in> Basic_BNFs.snds kv" by (simp add: ab)
        show "wf_json b" using wf kv ab by auto
        show "length (ser gap ?ind b) \<le> k" using k ab by simp
      qed (rule \<open>blank gap\<close> bl)+
      then show "parse_value k (ser gap ?ind (snd kv) @ r) = Some (snd kv, r)"
        by (simp add: ab)
    qed
    have 3: "foldl obj_put [] (kv0 # kvs') = kv0 # kvs'"
      using foldl_obj_put [of "[]" kvs] dist Cons by simp
    have 4: "skip_ws (sep gap ?ind @ ?body) = dq # concat (map escape_char (fst kv0)) @ dq # ?rest"
      using 1 body by simp
    have 5: "parse_members m (dq # concat (map escape_char (fst kv0)) @ dq # ?rest)
               = Some (kv0 # kvs', rest)"
      using 2 body by simp
    show ?thesis
      using 3 4 5 by (simp add: Cons n dq_def del: foldl_Cons)
  qed
qed

lemma JSON_parse_ser:
  assumes "wf_json v" and "blank gap"
  shows "JSON_parse (ser gap [] v) = Some v"
proof -
  have "parse_value (Suc (length (ser gap [] v))) (ser gap [] v @ []) = Some (v, [])"
    using assms by (intro parse_value_ser) (simp_all add: blank_def)
  moreover have "skip_ws (ser gap [] v) = ser gap [] v"
    using skip_ws_ser [OF assms(1), of gap "[]" "[]"] by simp
  ultimately show ?thesis
    by (simp add: JSON_parse_def skip_ws_def)
qed

lemma TaskSchema_parse_json_of:
  "TaskSchema_parse (json_of_Task t) = (if valid_Task t then Some t else None)"
  by (simp add: TaskSchema_parse_def json_of_Task_def valid_Task_def z_string_def z_boolean_def)

lemma those_map_if:
  "those (map (\<lambda>x. if P x then Some x else None) xs) = (if list_all P xs then Some xs else None)"
  by (induction xs) simp_all

lemma tasks_parse_json_of:
  "z_array TaskSchema_parse (Some (JArray (map json_of_Task ts)))
     = (if list_all valid_Task ts then Some ts else None)"
  by (simp add: z_array_def comp_def TaskSchema_parse_json_of those_map_if)

lemma RequestSchema_parse_json_of:
  "RequestSchema_parse (json_of_Request r) = (if valid_Request r then Some r else None)"
  by (simp add: RequestSchema_parse_def json_of_Request_def valid_Request_def z_string_def
      z_boolean_def tasks_parse_json_of)

lemma requests_parse_json_of:
  "z_array RequestSchema_parse (Some (JArray (map json_of_Request rs)))
     = (if list_all valid_Request rs then Some rs else None)"
  by (simp add: z_array_def comp_def RequestSchema_parse_json_of those_map_if)

lemma TasksDataSchema_parse_json_of:
  "TasksDataSchema_parse (json_of_TasksData d) = (if valid_TasksData d then Some d else None)"
  by (simp add: TasksDataSchema_parse_def json_of_TasksData_def valid_TasksData_def
      requests_parse_json_of)

lemma wf_json_of_Task: "wf_json (json_of_Task t)"
  by (simp add: json_of_Task_def)

lemma wf_json_of_Request: "wf_json (json_of_Request r)"
  by (simp add: json_of_Request_def wf_json_of_Task)

lemma wf_json_of_TasksData: "wf_json (json_of_TasksData d)"
  by (simp add: json_of_TasksData_def wf_json_of_Request)

lemma JSON_parse_stringify2:
  "JSON_parse (JSON_stringify2 (json_of_TasksData d)) = Some (json_of_TasksData d)"
  unfolding JSON_stringify2_def
  by (rule JSON_parse_ser [OF wf_json_of_TasksData]) (simp add: blank_def is_ws_def)

lemma trim_Cons: "\<not> is_js_space c \<Longrightarrow> trim (c # s) \<noteq> []"
  by (simp add: trim_def dropWhile_append)

lemma trim_stringify2: "trim (JSON_stringify2 (json_of_TasksData d)) \<noteq> []"
  by (cases "requests d")
     (simp_all add: JSON_stringify2_def json_of_TasksData_def trim_Cons is_js_space_def)

section \<open>What the operations leave alone\<close>

lemma acquireLock_loop_frame:
  "\<exists>n l f. snd (acquireLock_loop st s) = s\<lparr>now := n, LOCK_FILE := l, lockFile := f\<rparr>"
proof (induction st s rule: acquireLock_loop.induct)
  case (1 st s)
  show ?case
  proof (cases "now s - st < LOCK_TIMEOUT")
    case False
    then have "snd (acquireLock_loop st s)
        = s\<lparr>now := now s, LOCK_FILE := LOCK_FILE s, lockFile := lockFile s\<rparr>"
      by (simp add: acquireLock_loop.simps [of st s])
    then show ?thesis by blast
  next
    case True
    show ?thesis
    proof (cases "LOCK_FILE s")
      case None
      with True have "snd (acquireLock_loop st s)
          = s\<lparr>now := now s, LOCK_FILE := Some (LockInfo (Some (now s))), lockFile := Some 3\<rparr>"
        by (simp add: acquireLock_loop.simps [of st s])
      then show ?thesis by blast
    next
      case (Some c)
      show ?thesis
      proof (cases c)
        case Unparsable
        with 1(1) True Some obtain n l f where
          "snd (acquireLock_loop st (s\<lparr>LOCK_FILE := None\<rparr>))
             = s\<lparr>LOCK_FILE := None\<rparr>\<lparr>now := n, LOCK_FILE := l, lockFile := f\<rparr>"
          by blast
        with True Some Unparsable
        have "snd (acquireLock_loop st s) = s\<lparr>now := n, LOCK_FILE := l, lockFile := f\<rparr>"
          by (simp add: acquireLock_loop.simps [of st s])
        then show ?thesis by blast
      next
        case (LockInfo t)
        show ?thesis
        proof (cases t)
          case None
          with 1(2) True Some LockInfo obtain n l f where
            "snd (acquireLock_loop st (s\<lparr>now := now s + 100\<rparr>))
               = s\<lparr>now := now s + 100\<rparr>\<lparr>now := n, LOCK_FILE := l, lockFile := f\<rparr>"
            by blast
          with True Some LockInfo None
          have "snd (acquireLock_loop st s) = s\<lparr>now := n, LOCK_FILE := l, lockFile := f\<rparr>"
            by (simp add: acquireLock_loop.simps [of st s])
          then show ?thesis by blast
        next
          case (Some ts)
          show ?thesis
          proof (cases "now s - ts > LOCK_TIMEOUT")
            case stale: True
            with 1(3) True \<open>LOCK_FILE s = Some c\<close> LockInfo Some obtain n l f where
              "snd (acquireLock_loop st (s\<lparr>LOCK_FILE := None\<rparr>))
                 = s\<lparr>LOCK_FILE := None\<rparr>\<lparr>now := n, LOCK_FILE := l, lockFile := f\<rparr>"
              by blast
            with True \<open>LOCK_FILE s = Some c\<close> LockInfo Some stale
            have "snd (acquireLock_loop st s) = s\<lparr>now := n, LOCK_FILE := l, lockFile := f\<rparr>"
              by (simp add: acquireLock_loop.simps [of st s])
            then show ?thesis by blast
          next
            case fresh: False
            with 1(4) True \<open>LOCK_FILE s = Some c\<close> LockInfo Some obtain n l f where
              "snd (acquireLock_loop st (s\<lparr>now := now s + 100\<rparr>))
                 = s\<lparr>now := now s + 100\<rparr>\<lparr>now := n, LOCK_FILE := l, lockFile := f\<rparr>"
              by blast
            with True \<open>LOCK_FILE s = Some c\<close> LockInfo Some fresh
            have "snd (acquireLock_loop st s) = s\<lparr>now := n, LOCK_FILE := l, lockFile := f\<rparr>"
              by (simp add: acquireLock_loop.simps [of st s])
            then show ?thesis by blast
          qed
        qed
      qed
    qed
  qed
qed

lemma acquireLock_frame:
  assumes "acquireLock s = (r, s')"
  shows "TASKS_FILE s' = TASKS_FILE s" and "TASKS_FILE_checksum s' = TASKS_FILE_checksum s"
    and "TASKS_FILE_tmp s' = TASKS_FILE_tmp s"
    and "TASKS_FILE_tmp_checksum s' = TASKS_FILE_tmp_checksum s"
    and "BACKUP_DIR s' = BACKUP_DIR s"
proof -
  obtain n l f where
    "snd (acquireLock_loop (now s) s) = s\<lparr>now := n, LOCK_FILE := l, lockFile := f\<rparr>"
    using acquireLock_loop_frame by blast
  with assms have s': "s' = s\<lparr>now := n, LOCK_FILE := l, lockFile := f\<rparr>"
    by (simp add: acquireLock_def)
  show "TASKS_FILE s' = TASKS_FILE s" and "TASKS_FILE_checksum s' = TASKS_FILE_checksum s"
    and "TASKS_FILE_tmp s' = TASKS_FILE_tmp s"
    and "TASKS_FILE_tmp_checksum s' = TASKS_FILE_tmp_checksum s"
    and "BACKUP_DIR s' = BACKUP_DIR s"
    by (simp_all add: s')
qed

lemma unlink_fold_frame:
  "\<exists>b. fold (\<lambda>backup. unlink_backup (name backup)) bs s = s\<lparr>BACKUP_DIR := b\<rparr>"
proof (induction bs arbitrary: s)
  case Nil
  have "fold (\<lambda>backup. unlink_backup (name backup)) [] s = s\<lparr>BACKUP_DIR := BACKUP_DIR s\<rparr>"
    by simp
  then show ?case ..
next
  case (Cons a bs)
  obtain b where "fold (\<lambda>backup. unlink_backup (name backup)) bs (unlink_backup (name a) s)
      = unlink_backup (name a) s\<lparr>BACKUP_DIR := b\<rparr>"
    using Cons.IH by blast
  then have "fold (\<lambda>backup. unlink_backup (name backup)) (a # bs) s = s\<lparr>BACKUP_DIR := b\<rparr>"
    by (simp add: unlink_backup_def)
  then show ?case by blast
qed

lemma cleanupOldBackups_frame: "\<exists>b. cleanupOldBackups s = s\<lparr>BACKUP_DIR := b\<rparr>"
proof (cases "\<exists>fs. readdir s = Some fs \<and> length (taskBackups fs) > MAX_BACKUPS")
  case True
  then obtain fs where fs: "readdir s = Some fs" "length (taskBackups fs) > MAX_BACKUPS"
    by blast
  obtain b where "fold (\<lambda>backup. unlink_backup (name backup)) (drop MAX_BACKUPS (taskBackups fs)) s
      = s\<lparr>BACKUP_DIR := b\<rparr>"
    using unlink_fold_frame by blast
  with fs have "cleanupOldBackups s = s\<lparr>BACKUP_DIR := b\<rparr>"
    by (simp add: cleanupOldBackups_def Let_def)
  then show ?thesis ..
next
  case False
  then have "cleanupOldBackups s = s\<lparr>BACKUP_DIR := BACKUP_DIR s\<rparr>"
    by (cases "readdir s") (simp_all add: cleanupOldBackups_def Let_def)
  then show ?thesis ..
qed

lemma createBackup_frame: "\<exists>b. createBackup sha256 s = s\<lparr>BACKUP_DIR := b\<rparr>"
proof -
  have 1: "\<exists>b. ensureDir s = s\<lparr>BACKUP_DIR := b\<rparr>"
    by (auto simp: ensureDir_def)
  have 2: "\<exists>b. cleanupOldBackups (write_backup f c (ensureDir s)) = s\<lparr>BACKUP_DIR := b\<rparr>" for f c
  proof -
    obtain b where "cleanupOldBackups (write_backup f c (ensureDir s))
        = write_backup f c (ensureDir s)\<lparr>BACKUP_DIR := b\<rparr>"
      using cleanupOldBackups_frame by blast
    then have "cleanupOldBackups (write_backup f c (ensureDir s)) = s\<lparr>BACKUP_DIR := b\<rparr>"
      by (simp add: write_backup_def ensureDir_def)
    then show ?thesis by blast
  qed
  have tf: "TASKS_FILE (ensureDir s) = TASKS_FILE s"
    by (simp add: ensureDir_def)
  show ?thesis
  proof (cases "\<exists>c d. TASKS_FILE s = Some c \<and> JSON_parse c = Some d")
    case True
    then obtain c d where "TASKS_FILE s = Some c" "JSON_parse c = Some d" by blast
    then show ?thesis
      using 2 by (simp add: createBackup_def Let_def tf)
  next
    case False
    then have "createBackup sha256 s = ensureDir s"
      by (cases "TASKS_FILE s") (auto simp add: createBackup_def Let_def tf split: option.splits)
    then show ?thesis using 1 by simp
  qed
qed

lemma releaseLock_frame:
  "TASKS_FILE (releaseLock s) = TASKS_FILE s"
  "TASKS_FILE_checksum (releaseLock s) = TASKS_FILE_checksum s"
  "TASKS_FILE_tmp (releaseLock s) = TASKS_FILE_tmp s"
  "TASKS_FILE_tmp_checksum (releaseLock s) = TASKS_FILE_tmp_checksum s"
  "BACKUP_DIR (releaseLock s) = BACKUP_DIR s"
  by (simp_all add: releaseLock_def split: option.splits)

lemma createBackup_files:
  "TASKS_FILE (createBackup sha256 s) = TASKS_FILE s"
  "TASKS_FILE_checksum (createBackup sha256 s) = TASKS_FILE_checksum s"
  "TASKS_FILE_tmp (createBackup sha256 s) = TASKS_FILE_tmp s"
  "TASKS_FILE_tmp_checksum (createBackup sha256 s) = TASKS_FILE_tmp_checksum s"
  "LOCK_FILE (createBackup sha256 s) = LOCK_FILE s"
  "lockFile (createBackup sha256 s) = lockFile s"
  using createBackup_frame [of sha256 s] by auto

text \<open>What a run of \<open>saveData_on\<close> that took the lock and validated the document does.\<close>

lemma saveData_on_locked:
  assumes "acquireLock s = (Inr u, s1)" and "valid_TasksData d"
  shows "saveData_on disk sha256 d s =
     (let dataString = JSON_stringify2 (json_of_TasksData d);
          s2 = createBackup sha256 s1
      in if calculateChecksum sha256 (disk dataString) \<noteq> calculateChecksum sha256 dataString
         then (Inl (Error ''Data integrity check failed after write''),
               releaseLock (s2\<lparr>TASKS_FILE_tmp := None, TASKS_FILE_tmp_checksum := None\<rparr>))
         else (Inr (),
               releaseLock (s2\<lparr>TASKS_FILE := Some (disk dataString),
                                TASKS_FILE_checksum := Some (calculateChecksum sha256 dataString),
                                TASKS_FILE_tmp := None, TASKS_FILE_tmp_checksum := None\<rparr>)))"
  using assms by (simp add: saveData_on_def TasksDataSchema_parse_json_of Let_def)

lemma saveData_success:
  assumes "saveData sha256 d s = (Inr u, s')"
  shows "valid_TasksData d"
    and "TASKS_FILE s' = Some (JSON_stringify2 (json_of_TasksData d))"
    and "TASKS_FILE_checksum s'
           = Some (calculateChecksum sha256 (JSON_stringify2 (json_of_TasksData d)))"
    and "TASKS_FILE_tmp s' = None" and "TASKS_FILE_tmp_checksum s' = None"
proof -
  obtain r s1 where a: "acquireLock s = (r, s1)" by (cases "acquireLock s")
  with assms obtain v where r: "r = Inr v"
    by (cases r) (simp_all add: saveData_def saveData_on_def)
  show valid: "valid_TasksData d"
    using assms a r
    by (simp add: saveData_def saveData_on_def TasksDataSchema_parse_json_of split: if_splits)
  from saveData_on_locked [OF a [unfolded r] valid, of "\<lambda>w. w" sha256] assms
  have s': "s' = releaseLock (createBackup sha256 s1
        \<lparr>TASKS_FILE := Some (JSON_stringify2 (json_of_TasksData d)),
          TASKS_FILE_checksum :=
            Some (calculateChecksum sha256 (JSON_stringify2 (json_of_TasksData d))),
          TASKS_FILE_tmp := None, TASKS_FILE_tmp_checksum := None\<rparr>)"
    by (simp add: saveData_def Let_def)
  show "TASKS_FILE s' = Some (JSON_stringify2 (json_of_TasksData d))"
    and "TASKS_FILE_checksum s'
           = Some (calculateChecksum sha256 (JSON_stringify2 (json_of_TasksData d)))"
    and "TASKS_FILE_tmp s' = None" and "TASKS_FILE_tmp_checksum s' = None"
    by (simp_all add: s' releaseLock_frame)
qed

lemma loadData_valid_file:
  assumes "TASKS_FILE s = Some (JSON_stringify2 (json_of_TasksData d))" and "valid_TasksData d"
  shows "loadData sha256 s = (Inr d, s)"
  using assms
  by (simp add: loadData_def trim_stringify2 JSON_parse_stringify2 TasksDataSchema_parse_json_of)

lemma acquireLock_free:
  "LOCK_FILE s = None \<Longrightarrow>
     acquireLock s = (Inr (), s\<lparr>LOCK_FILE := Some (LockInfo (Some (now s))), lockFile := Some 3\<rparr>)"
  by (simp add: acquireLock_def acquireLock_loop.simps [of "now s" s] LOCK_TIMEOUT_def)

section \<open>Searching and generating identifiers\<close>

lemma findIndex_None: "findIndex p xs = None \<longleftrightarrow> (\<forall>x \<in> set xs. \<not> p x)"
  by (induction xs) simp_all

lemma findIndex_Some:
  "findIndex p xs = Some i \<Longrightarrow> i < length xs \<and> p (xs ! i) \<and> (\<forall>j < i. \<not> p (xs ! j))"
proof (induction xs arbitrary: i)
  case Nil
  then show ?case by simp
next
  case (Cons x xs)
  show ?case
  proof (cases "p x")
    case True
    with Cons.prems show ?thesis by simp
  next
    case False
    with Cons.prems obtain k where k: "findIndex p xs = Some k" "i = Suc k" by auto
    from Cons.IH [OF k(1)] False k(2) show ?thesis
      by (auto simp: less_Suc_eq_0_disj)
  qed
qed

lemma find_findIndex:
  "findIndex p xs = Some i \<Longrightarrow> find p xs = Some (xs ! i)"
  by (induction xs arbitrary: i) (auto split: if_splits)

lemma next_free_spec:
  "n \<le> next_free prefix ids n \<and> prefix @ show_nat (next_free prefix ids n) \<notin> set ids
   \<and> (\<forall>k. n \<le> k \<and> k < next_free prefix ids n \<longrightarrow> prefix @ show_nat k \<in> set ids)"
proof (induction prefix ids n rule: next_free.induct)
  case (1 prefix ids n)
  show ?case
  proof (cases "prefix @ show_nat n \<in> set ids")
    case True
    then have eq: "next_free prefix ids n = next_free prefix ids (Suc n)"
      by (simp add: next_free.simps [of prefix ids n])
    have "k = n \<or> Suc n \<le> k" if "n \<le> k" for k
      using that by auto
    with 1 [OF True] True show ?thesis
      unfolding eq by (metis Suc_leD)
  next
    case False
    then have "next_free prefix ids n = n"
      by (simp add: next_free.simps [of prefix ids n])
    with False show ?thesis by auto
  qed
qed

lemma next_free_least: "least_free prefix ids (next_free prefix ids 1)"
  using next_free_spec [of 1 prefix ids] by (simp add: least_free_def)

section \<open>Runs on the example state\<close>

lemma saveData_lock_free:
  assumes "LOCK_FILE s = None" and "valid_TasksData d"
  shows "saveData sha256 d s =
     (Inr (),
      releaseLock
        (createBackup sha256 (s\<lparr>LOCK_FILE := Some (LockInfo (Some (now s))), lockFile := Some 3\<rparr>)
           \<lparr>TASKS_FILE := Some (JSON_stringify2 (json_of_TasksData d)),
             TASKS_FILE_checksum :=
               Some (calculateChecksum sha256 (JSON_stringify2 (json_of_TasksData d))),
             TASKS_FILE_tmp := None, TASKS_FILE_tmp_checksum := None\<rparr>))"
  using saveData_on_locked [OF acquireLock_free [OF assms(1)] assms(2), of "\<lambda>w. w" sha256]
  by (simp add: saveData_def Let_def)

lemma valid_doc1: "valid_TasksData doc1"
  by (simp add: valid_TasksData_def valid_Request_def valid_Task_def doc1_def request1_def
      task1_def)

lemma loadData_state1: "loadData sha256 state1 = (Inr doc1, state1)"
  by (rule loadData_valid_file) (simp_all add: state1_def valid_doc1)

lemma LOCK_FILE_state1: "LOCK_FILE state1 = None"
  by (simp add: state1_def state0_def)

section \<open>What a successful operation has done\<close>

lemma createRequest_Inr:
  assumes "loadData sha256 s = (Inr d, s1)" and "createRequest sha256 requestData s = (Inr r, s2)"
  shows "r = new_Request (''req-'' @ show_nat (next_free ''req-'' (map requestId (requests d)) 1))
               requestData"
    and "\<exists>u. saveData sha256 (d\<lparr>requests := requests d @ [r]\<rparr>) s1 = (Inr u, s2)"
  using assms
  by (auto simp add: createRequest_def Let_def split: option.splits prod.splits sum.splits)

lemma createTask_Inr:
  assumes "loadData sha256 s = (Inr d, s1)" and "createTask sha256 rid taskData s = (Inr t, s2)"
  shows "\<exists>i. findIndex (\<lambda>r. requestId r = rid) (requests d) = Some i
     \<and> t = new_Task (''task-'' @ show_nat (next_free ''task-''
                         (map id_task (tasks (requests d ! i))) 1)) taskData
     \<and> (\<exists>u. saveData sha256 (set_tasks d i (tasks (requests d ! i) @ [t])) s1 = (Inr u, s2))"
  using assms
  by (auto simp add: createTask_def Let_def split: option.splits prod.splits sum.splits)

lemma updateRequest_Inr:
  assumes "loadData sha256 s = (Inr d, s1)" and "updateRequest sha256 rid updates s = (Inr r, s2)"
  shows "\<exists>i. findIndex (\<lambda>r. requestId r = rid) (requests d) = Some i
     \<and> r = merge_Request (requests d ! i) updates
     \<and> (\<exists>u. saveData sha256 (d\<lparr>requests := (requests d)[i := r]\<rparr>) s1 = (Inr u, s2))"
  using assms
  by (auto simp add: updateRequest_def Let_def split: option.splits prod.splits sum.splits)

lemma deleteRequest_Inr:
  assumes "loadData sha256 s = (Inr d, s1)" and "deleteRequest sha256 rid s = (Inr u, s2)"
  shows "\<exists>i. findIndex (\<lambda>r. requestId r = rid) (requests d) = Some i
     \<and> saveData sha256 (d\<lparr>requests := splice1 i (requests d)\<rparr>) s1 = (Inr u, s2)"
  using assms
  by (auto simp add: deleteRequest_def split: option.splits)

lemma updateTask_Inr:
  assumes "loadData sha256 s = (Inr d, s1)"
    and "updateTask sha256 rid tid updates s = (Inr t, s2)"
  shows "\<exists>i j. findIndex (\<lambda>r. requestId r = rid) (requests d) = Some i
     \<and> findIndex (\<lambda>t. id_task t = tid) (tasks (requests d ! i)) = Some j
     \<and> t = merge_Task (tasks (requests d ! i) ! j) updates
     \<and> (\<exists>u. saveData sha256 (set_tasks d i ((tasks (requests d ! i))[j := t])) s1 = (Inr u, s2))"
  using assms
  by (auto simp add: updateTask_def Let_def split: option.splits prod.splits sum.splits)

lemma deleteTask_Inr:
  assumes "loadData sha256 s = (Inr d, s1)" and "deleteTask sha256 rid tid s = (Inr u, s2)"
  shows "\<exists>i j. findIndex (\<lambda>r. requestId r = rid) (requests d) = Some i
     \<and> findIndex (\<lambda>t. id_task t = tid) (tasks (requests d ! i)) = Some j
     \<and> saveData sha256 (set_tasks d i (splice1 j (tasks (requests d ! i)))) s1 = (Inr u, s2)"
  using assms
  by (auto simp add: deleteTask_def split: option.splits)

text \<open>After a successful \<open>saveData\<close>, \<open>loadData\<close> returns the document that was saved.\<close>

lemma loadData_after_saveData:
  assumes "saveData sha256 d s = (Inr u, s')"
  shows "loadData sha256 s' = (Inr d, s')"
  using saveData_success(2) [OF assms] saveData_success(1) [OF assms]
  by (rule loadData_valid_file)

section \<open>Operations that succeed\<close>

text \<open>With no lock file in the way, an operation whose result validates returns it.\<close>

lemma saveData_lock_free_fst:
  "LOCK_FILE s = None \<Longrightarrow> valid_TasksData d \<Longrightarrow> fst (saveData sha256 d s) = Inr ()"
  by (simp add: saveData_lock_free)

lemma createRequest_succeeds:
  assumes "loadData sha256 s = (Inr d, s1)" and "LOCK_FILE s1 = None"
    and "r = new_Request (''req-'' @ show_nat (next_free ''req-'' (map requestId (requests d)) 1))
               requestData"
    and "valid_Request r" and "valid_TasksData d"
  shows "fst (createRequest sha256 requestData s) = Inr r"
proof -
  have "valid_TasksData (d\<lparr>requests := requests d @ [r]\<rparr>)"
    using assms(4,5) by (simp add: valid_TasksData_def)
  from saveData_lock_free [OF assms(2) this, of sha256] assms(1,3,4) show ?thesis
    by (simp add: createRequest_def Let_def RequestSchema_parse_json_of)
qed

lemma valid_set_tasks:
  assumes "valid_TasksData d" and "i < length (requests d)" and "list_all valid_Task ts"
  shows "valid_TasksData (set_tasks d i ts)"
proof -
  have "valid_Request (requests d ! i)"
    using assms(1,2) by (simp add: valid_TasksData_def list_all_length)
  then have "valid_Request ((requests d ! i)\<lparr>tasks := ts\<rparr>)"
    using assms(3) by (simp add: valid_Request_def)
  with assms(1) show ?thesis
    by (auto simp add: valid_TasksData_def set_tasks_def list_all_iff dest: set_update_subset_insert [THEN subsetD])
qed

lemma createTask_succeeds:
  assumes "loadData sha256 s = (Inr d, s1)" and "LOCK_FILE s1 = None"
    and "findIndex (\<lambda>r. requestId r = rid) (requests d) = Some i"
    and "t = new_Task (''task-'' @ show_nat (next_free ''task-''
                         (map id_task (tasks (requests d ! i))) 1)) taskData"
    and "valid_Task t" and "valid_TasksData d"
  shows "fst (createTask sha256 rid taskData s) = Inr t"
proof -
  have i: "i < length (requests d)"
    using findIndex_Some [OF assms(3)] by simp
  then have "list_all valid_Task (tasks (requests d ! i))"
    using assms(6) by (simp add: valid_TasksData_def list_all_length valid_Request_def)
  with assms(5) have "list_all valid_Task (tasks (requests d ! i) @ [t])"
    by simp
  from saveData_lock_free [OF assms(2) valid_set_tasks [OF assms(6) i this], of sha256]
    assms(1,3,4,5)
  show ?thesis
    by (simp add: createTask_def Let_def TaskSchema_parse_json_of)
qed

lemma updateRequest_succeeds:
  assumes "loadData sha256 s = (Inr d, s1)" and "LOCK_FILE s1 = None"
    and "findIndex (\<lambda>r. requestId r = rid) (requests d) = Some i"
    and "r = merge_Request (requests d ! i) updates"
    and "valid_Request r" and "valid_TasksData d"
  shows "fst (updateRequest sha256 rid updates s) = Inr r"
proof -
  have "valid_TasksData (d\<lparr>requests := (requests d)[i := r]\<rparr>)"
    using assms(5,6)
    by (auto simp add: valid_TasksData_def list_all_iff dest: set_update_subset_insert [THEN subsetD])
  from saveData_lock_free [OF assms(2) this, of sha256] assms(1,3,4,5) show ?thesis
    by (simp add: updateRequest_def Let_def RequestSchema_parse_json_of)
qed

lemma deleteRequest_succeeds:
  assumes "loadData sha256 s = (Inr d, s1)" and "LOCK_FILE s1 = None"
    and "findIndex (\<lambda>r. requestId r = rid) (requests d) = Some i"
    and "valid_TasksData d"
  shows "fst (deleteRequest sha256 rid s) = Inr ()"
proof -
  have "set (splice1 i (requests d)) \<subseteq> set (requests d)"
    by (auto simp add: splice1_def dest: in_set_takeD in_set_dropD)
  with assms(4) have "valid_TasksData (d\<lparr>requests := splice1 i (requests d)\<rparr>)"
    by (auto simp add: valid_TasksData_def list_all_iff)
  from saveData_lock_free [OF assms(2) this, of sha256] assms(1,3) show ?thesis
    by (simp add: deleteRequest_def)
qed

lemma updateTask_succeeds:
  assumes "loadData sha256 s = (Inr d, s1)" and "LOCK_FILE s1 = None"
    and "findIndex (\<lambda>r. requestId r = rid) (requests d) = Some i"
    and "findIndex (\<lambda>t. id_task t = tid) (tasks (requests d ! i)) = Some j"
    and "t = merge_Task (tasks (requests d ! i) ! j) updates"
    and "valid_Task t" and "valid_TasksData d"
  shows "fst (updateTask sha256 rid tid updates s) = Inr t"
proof -
  have i: "i < length (requests d)"
    using findIndex_Some [OF assms(3)] by simp
  then have "list_all valid_Task (tasks (requests d ! i))"
    using assms(7) by (simp add: valid_TasksData_def list_all_length valid_Request_def)
  with assms(6) have "list_all valid_Task ((tasks (requests d ! i))[j := t])"
    by (auto simp add: list_all_iff dest: set_update_subset_insert [THEN subsetD])
  from saveData_lock_free [OF assms(2) valid_set_tasks [OF assms(7) i this], of sha256]
    assms(1,3,4,5,6)
  show ?thesis
    by (simp add: updateTask_def Let_def TaskSchema_parse_json_of)
qed

lemma deleteTask_succeeds:
  assumes "loadData sha256 s = (Inr d, s1)" and "LOCK_FILE s1 = None"
    and "findIndex (\<lambda>r. requestId r = rid) (requests d) = Some i"
    and "findIndex (\<lambda>t. id_task t = tid) (tasks (requests d ! i)) = Some j"
    and "valid_TasksData d"
  shows "fst (deleteTask sha256 rid tid s) = Inr ()"
proof -
  have i: "i < length (requests d)"
    using findIndex_Some [OF assms(3)] by simp
  then have "list_all valid_Task (tasks (requests d ! i))"
    using assms(5) by (simp add: valid_TasksData_def list_all_length valid_Request_def)
  moreover have "set (splice1 j (tasks (requests d ! i))) \<subseteq> set (tasks (requests d ! i))"
    by (auto simp add: splice1_def dest: in_set_takeD in_set_dropD)
  ultimately have "list_all valid_Task (splice1 j (tasks (requests d ! i)))"
    by (auto simp add: list_all_iff)
  from saveData_lock_free [OF assms(2) valid_set_tasks [OF assms(5) i this], of sha256]
    assms(1,3,4)
  show ?thesis
    by (simp add: deleteTask_def)
qed

lemma findIndex_doc1: "findIndex (\<lambda>r. requestId r = ''req-1'') (requests doc1) = Some 0"
  by (simp add: doc1_def request1_def)

lemma findIndex_task1:
  "findIndex (\<lambda>t. id_task t = ''task-1'') (tasks (requests doc1 ! 0)) = Some 0"
  by (simp add: doc1_def request1_def task1_def)

section \<open>Rounding\<close>











section \<open>Taking the lock\<close>

text \<open>
  A lock file that cannot be read as JSON, and one whose time is more than the timeout
  ago, are removed and the lock is taken at once. A lock file with a younger time makes
  the loop sleep.
\<close>

lemma acquireLock_unparsable:
  assumes "LOCK_FILE s = Some Unparsable"
  shows "acquireLock s
     = (Inr (), s\<lparr>LOCK_FILE := Some (LockInfo (Some (now s))), lockFile := Some 3\<rparr>)"
  using assms
  by (simp add: acquireLock_def acquireLock_loop.simps [of "now s" s]
      acquireLock_loop.simps [of "now s" "s\<lparr>LOCK_FILE := None\<rparr>"] LOCK_TIMEOUT_def)

lemma acquireLock_stale:
  assumes "LOCK_FILE s = Some (LockInfo (Some t))" and "LOCK_TIMEOUT < now s - t"
  shows "acquireLock s
     = (Inr (), s\<lparr>LOCK_FILE := Some (LockInfo (Some (now s))), lockFile := Some 3\<rparr>)"
  using assms
  by (simp add: acquireLock_def acquireLock_loop.simps [of "now s" s]
      acquireLock_loop.simps [of "now s" "s\<lparr>LOCK_FILE := None\<rparr>"] LOCK_TIMEOUT_def)

lemma acquireLock_loop_sleeps:
  assumes "LOCK_FILE s = Some (LockInfo (Some t))" and "\<not> LOCK_TIMEOUT < now s - t"
    and "now s - startTime < LOCK_TIMEOUT"
  shows "acquireLock_loop startTime s = acquireLock_loop startTime (s\<lparr>now := now s + 100\<rparr>)"
  using assms by (simp add: acquireLock_loop.simps [of startTime s])

section \<open>A backup and its restoration\<close>

lemma backup_name_matches:
  "startsWith (''tasks-'' @ x @ ''.json'') ''tasks-''"
  "endsWith (''tasks-'' @ x @ ''.json'') ''.json''"
  by (simp_all add: startsWith_def endsWith_def)

lemma taskBackups_single:
  assumes "startsWith f ''tasks-''" and "endsWith f ''.json''"
  shows "map name (taskBackups [f]) = [f]"
  using assms by (simp add: taskBackups_def sort_js_def)

lemma cleanupOldBackups_single:
  assumes "BACKUP_DIR s = Some [(f, c)]"
    and "startsWith f ''tasks-''" and "endsWith f ''.json''"
  shows "cleanupOldBackups s = s"
proof -
  have "length (map name (taskBackups [f])) = 1"
    by (simp only: taskBackups_single [OF assms(2,3)]) simp
  then have "length (taskBackups [f]) = 1"
    by simp
  then show ?thesis
    using assms(1) by (simp add: cleanupOldBackups_def readdir_def Let_def MAX_BACKUPS_def)
qed

text \<open>The backup \<open>createBackup\<close> writes of a live file that parses, into an empty directory.\<close>

lemma createBackup_fresh:
  assumes "TASKS_FILE s = Some originalContent"
    and "JSON_parse originalContent = Some d"
    and "BACKUP_DIR s = None \<or> BACKUP_DIR s = Some []"
  shows "createBackup sha256 s =
     s\<lparr>BACKUP_DIR :=
         Some [(''tasks-'' @ replace_colon_dot (toISOString (now s)) @ ''.json'',
                JSON_stringify2 (backup_record sha256 (now s) originalContent d))]\<rparr>"
proof -
  define f where "f = ''tasks-'' @ replace_colon_dot (toISOString (now s)) @ ''.json''"
  define c where "c = JSON_stringify2 (backup_record sha256 (now s) originalContent d)"
  have m: "startsWith f ''tasks-''" "endsWith f ''.json''"
    unfolding f_def by (rule backup_name_matches)+
  have e: "ensureDir s = s\<lparr>BACKUP_DIR := Some []\<rparr>"
    using assms(3) by (auto simp add: ensureDir_def)
  have n: "now (s\<lparr>BACKUP_DIR := Some []\<rparr>) = now s"
    and t: "TASKS_FILE (s\<lparr>BACKUP_DIR := Some []\<rparr>) = Some originalContent"
    using assms(1) by simp_all
  have w: "write_backup f c (s\<lparr>BACKUP_DIR := Some []\<rparr>) = s\<lparr>BACKUP_DIR := Some [(f, c)]\<rparr>"
    by (simp add: write_backup_def)
  have k: "cleanupOldBackups (s\<lparr>BACKUP_DIR := Some [(f, c)]\<rparr>) = s\<lparr>BACKUP_DIR := Some [(f, c)]\<rparr>"
    by (rule cleanupOldBackups_single [OF _ m]) simp
  have "createBackup sha256 s = cleanupOldBackups (write_backup f c (s\<lparr>BACKUP_DIR := Some []\<rparr>))"
    unfolding createBackup_def e Let_def t n option.case assms(2) f_def c_def ..
  then have "createBackup sha256 s = s\<lparr>BACKUP_DIR := Some [(f, c)]\<rparr>"
    by (simp only: w k)
  then show ?thesis
    unfolding f_def c_def .
qed

lemma JSON_parse_backup_record:
  assumes "wf_json d"
  shows "JSON_parse (JSON_stringify2 (backup_record sha256 t content d))
     = Some (backup_record sha256 t content d)"
  unfolding JSON_stringify2_def
  by (rule JSON_parse_ser) (simp_all add: backup_record_def assms blank_def is_ws_def)

lemma get_prop_backup_record:
  "get_prop (backup_record sha256 t content d) ''data'' = Some d"
  "get_prop (backup_record sha256 t content d) ''checksum''
     = Some (JString (calculateChecksum sha256 content))"
  by (simp_all add: backup_record_def get_prop_def)

text \<open>
  \<open>restoreFromBackup\<close> compares the stored checksum, which is that of the text the live
  file held, with the checksum of the compact text of the data.
\<close>

lemma restore_scan_rejects:
  assumes "read_backup f s = Some (JSON_stringify2 (backup_record sha256 t content d))"
    and "wf_json d"
    and "calculateChecksum sha256 content \<noteq> calculateChecksum sha256 (JSON_stringify d)"
    and "\<forall>b \<in> set bs. name b = f"
  shows "restore_scan sha256 bs s = (None, s)"
  using assms(4)
proof (induction bs)
  case Nil
  then show ?case by simp
next
  case (Cons b bs)
  then have b: "name b = f" and rest: "restore_scan sha256 bs s = (None, s)"
    by simp_all
  have "Some (JString (calculateChecksum sha256 (JSON_stringify d)))
          \<noteq> Some (JString (calculateChecksum sha256 content))"
    using assms(3) by simp
  then have "restore_scan sha256 (b # bs) s = restore_scan sha256 bs s"
    by (simp only: restore_scan.simps b assms(1) option.case JSON_parse_backup_record [OF assms(2)]
        get_prop_backup_record option.sel simp_thms if_False)
  then show ?case
    by (simp only: rest)
qed

lemma restore_scan_accepts:
  assumes "read_backup (name b) s
             = Some (JSON_stringify2 (backup_record sha256 t content (json_of_TasksData D)))"
    and "valid_TasksData D"
    and "calculateChecksum sha256 content
           = calculateChecksum sha256 (JSON_stringify (json_of_TasksData D))"
    and "calculateChecksum sha256 content \<noteq> []"
  shows "restore_scan sha256 (b # bs) s
     = (Some D, s\<lparr>TASKS_FILE := Some (JSON_stringify2 (json_of_TasksData D))\<rparr>)"
proof -
  have "truthy (Some (json_of_TasksData D))"
    by (simp add: truthy_def json_of_TasksData_def)
  moreover have "truthy (Some (JString (calculateChecksum sha256 content)))"
    using assms(4) by (simp add: truthy_def)
  ultimately show ?thesis
    using assms(2)
    by (simp only: restore_scan.simps assms(1) option.case
        JSON_parse_backup_record [OF wf_json_of_TasksData]
        get_prop_backup_record option.sel assms(3) simp_thms if_True
        TasksDataSchema_parse_json_of)
qed

text \<open>The text with an indentation of two is never the compact text.\<close>

lemma stringify2_neq_stringify:
  "JSON_stringify2 (json_of_TasksData D) \<noteq> JSON_stringify (json_of_TasksData D)"
  by (simp add: JSON_stringify2_def JSON_stringify_def json_of_TasksData_def sep_def quote_def
      nl_def dq_def)

text \<open>
  The restoration succeeds from a backup of a live file that held the compact text,
  which \<open>saveData\<close> never writes.
\<close>

lemma loadData_restores_backup_of_compact_text:
  assumes "valid_TasksData D"
    and "TASKS_FILE s = Some (JSON_stringify (json_of_TasksData D))"
    and "BACKUP_DIR s = None \<or> BACKUP_DIR s = Some []"
    and "calculateChecksum sha256 (JSON_stringify (json_of_TasksData D)) \<noteq> []"
  shows "loadData sha256 (createBackup sha256 s\<lparr>TASKS_FILE := Some []\<rparr>)
     = (Inr D, createBackup sha256 s\<lparr>TASKS_FILE := Some (JSON_stringify2 (json_of_TasksData D))\<rparr>)"
proof -
  let ?f = "''tasks-'' @ replace_colon_dot (toISOString (now s)) @ ''.json''"
  let ?b = "JSON_stringify2 (backup_record sha256 (now s)
              (JSON_stringify (json_of_TasksData D)) (json_of_TasksData D))"
  let ?s = "createBackup sha256 s\<lparr>TASKS_FILE := Some []\<rparr>"
  have p: "JSON_parse (JSON_stringify (json_of_TasksData D)) = Some (json_of_TasksData D)"
    unfolding JSON_stringify_def
    by (rule JSON_parse_ser [OF wf_json_of_TasksData]) (simp add: blank_def)
  have cb: "createBackup sha256 s = s\<lparr>BACKUP_DIR := Some [(?f, ?b)]\<rparr>"
    by (rule createBackup_fresh [OF assms(2) p assms(3)])
  have m: "startsWith ?f ''tasks-''" "endsWith ?f ''.json''"
    by (rule backup_name_matches)+
  have "map name (taskBackups [?f]) = [?f]"
    by (rule taskBackups_single [OF m])
  then obtain b where bs: "taskBackups [?f] = [b]" and b: "name b = ?f"
    by (cases "taskBackups [?f]") simp_all
  have rd: "read_backup (name b) ?s = Some ?b"
    unfolding cb b by (simp add: read_backup_def)
  have "restoreFromBackup sha256 ?s = restore_scan sha256 [b] ?s"
    unfolding restoreFromBackup_def readdir_def cb using bs by simp
  also have "\<dots> = (Some D, ?s\<lparr>TASKS_FILE := Some (JSON_stringify2 (json_of_TasksData D))\<rparr>)"
    by (rule restore_scan_accepts [OF rd assms(1) refl assms(4)])
  finally have "restore_or sha256 e ?s
      = (Inr D, ?s\<lparr>TASKS_FILE := Some (JSON_stringify2 (json_of_TasksData D))\<rparr>)" for e
    by (simp add: restore_or_def)
  then show ?thesis
    by (simp add: loadData_def trim_def)
qed

section \<open>Runs on the larger example documents\<close>

lemma valid_doc2: "valid_TasksData doc2"
  by (simp add: valid_TasksData_def valid_Request_def valid_Task_def doc2_def request1_def
      request4_def task1_def task1_done_def task2_def task3_def task4_def)

lemma loadData_state2: "loadData sha256 state2 = (Inr doc2, state2)"
  by (rule loadData_valid_file) (simp_all add: state2_def valid_doc2)

lemma LOCK_FILE_state2: "LOCK_FILE state2 = None"
  by (simp add: state2_def state0_def)



lemma findIndex_doc2:
  "findIndex (\<lambda>r. requestId r = ''req-1'') (requests doc2) = Some 0"
  "findIndex (\<lambda>r. requestId r = ''req-4'') (requests doc2) = Some 1"
  by (simp_all add: doc2_def request1_def request4_def)

lemma findIndex_task2:
  "findIndex (\<lambda>t. id_task t = ''task-2'') (tasks (requests doc2 ! 1)) = Some 1"
  by (simp add: doc2_def request4_def task1_done_def task1_def task2_def)

section \<open>The claims\<close>

text \<open>
  Claim C1, where it fails. The live file holds what \<open>saveData\<close> writes for a valid
  document \<open>D\<close>, and \<open>createBackup\<close> writes the only backup there is. Then the live file
  becomes empty, unparseable or invalid. \<open>loadData\<close> does not return \<open>D\<close>: it fails, and
  the live file stays as it is. The checksum \<open>createBackup\<close> stores is that of the text
  of the live file, which \<open>saveData\<close> wrote with an indentation of two; the checksum
  \<open>restoreFromBackup\<close> compares it with is that of the data printed without
  indentation. The two texts differ, and so do their digests.
\<close>

theorem loadData_rejects_backup_of_createBackup:
  assumes "valid_TasksData D"
    and "TASKS_FILE s = Some (JSON_stringify2 (json_of_TasksData D))"
    and "BACKUP_DIR s = None \<or> BACKUP_DIR s = Some []"
    and "calculateChecksum sha256 (JSON_stringify2 (json_of_TasksData D))
           \<noteq> calculateChecksum sha256 (JSON_stringify (json_of_TasksData D))"
    and "trim c = [] \<or> JSON_parse c = None
           \<or> (\<exists>rawData. JSON_parse c = Some rawData \<and> TasksDataSchema_parse rawData = None)"
  shows "map name (taskBackups (map fst (the (BACKUP_DIR (createBackup sha256 s)))))
           = [''tasks-'' @ replace_colon_dot (toISOString (now s)) @ ''.json'']
     \<and> (\<exists>e. loadData sha256 (createBackup sha256 s\<lparr>TASKS_FILE := Some c\<rparr>)
               = (Inl e, createBackup sha256 s\<lparr>TASKS_FILE := Some c\<rparr>))"
proof -
  let ?f = "''tasks-'' @ replace_colon_dot (toISOString (now s)) @ ''.json''"
  let ?b = "JSON_stringify2 (backup_record sha256 (now s)
              (JSON_stringify2 (json_of_TasksData D)) (json_of_TasksData D))"
  let ?s = "createBackup sha256 s\<lparr>TASKS_FILE := Some c\<rparr>"
  have cb: "createBackup sha256 s = s\<lparr>BACKUP_DIR := Some [(?f, ?b)]\<rparr>"
    by (rule createBackup_fresh [OF assms(2) JSON_parse_stringify2 assms(3)])
  have m: "startsWith ?f ''tasks-''" "endsWith ?f ''.json''"
    by (rule backup_name_matches)+
  have single: "map name (taskBackups [?f]) = [?f]"
    by (rule taskBackups_single [OF m])
  have "map fst (the (BACKUP_DIR (createBackup sha256 s))) = [?f]"
    unfolding cb by simp
  then have listed: "map name (taskBackups (map fst (the (BACKUP_DIR (createBackup sha256 s))))) = [?f]"
    using single by (simp only:)
  have rd: "read_backup ?f ?s = Some ?b"
    unfolding cb by (simp add: read_backup_def)
  have "set (map name (taskBackups [?f])) = {?f}"
    by (simp only: single) simp
  then have "\<forall>b \<in> set (taskBackups [?f]). name b = ?f"
    by auto
  from restore_scan_rejects [OF rd wf_json_of_TasksData assms(4) this]
  have "restoreFromBackup sha256 ?s = (None, ?s)"
    unfolding restoreFromBackup_def readdir_def cb by simp
  then have ro: "restore_or sha256 e ?s = (Inl (load_failure e), ?s)" for e
    by (simp add: restore_or_def)
  have "\<exists>e. loadData sha256 ?s = (Inl e, ?s)"
    using assms(5) by (auto simp add: loadData_def ro split: option.splits)
  with listed show ?thesis by blast
qed

theorem loadData_rejects_backup_of_createBackup_witness:
  "valid_TasksData doc1
   \<and> TASKS_FILE state1 = Some (JSON_stringify2 (json_of_TasksData doc1))
   \<and> BACKUP_DIR state1 = None
   \<and> calculateChecksum plain_digest (JSON_stringify2 (json_of_TasksData doc1))
        \<noteq> calculateChecksum plain_digest (JSON_stringify (json_of_TasksData doc1))
   \<and> trim [] = []
   \<and> map name (taskBackups (map fst (the (BACKUP_DIR (createBackup plain_digest state1)))))
        = [''tasks-'' @ replace_colon_dot (toISOString (now state1)) @ ''.json'']
   \<and> loadData plain_digest (createBackup plain_digest state1\<lparr>TASKS_FILE := Some []\<rparr>)
        = (Inl (ApiError ''Failed to load tasks data: Error: Empty file detected'' 500),
           createBackup plain_digest state1\<lparr>TASKS_FILE := Some []\<rparr>)"
proof -
  define s where "s = createBackup plain_digest state1\<lparr>TASKS_FILE := Some []\<rparr>"
  have 1: "TASKS_FILE state1 = Some (JSON_stringify2 (json_of_TasksData doc1))"
    and 2: "BACKUP_DIR state1 = None"
    by (simp_all add: state1_def state0_def)
  have 3: "calculateChecksum plain_digest (JSON_stringify2 (json_of_TasksData doc1))
        \<noteq> calculateChecksum plain_digest (JSON_stringify (json_of_TasksData doc1))"
    using stringify2_neq_stringify [of doc1] by (simp add: calculateChecksum_def plain_digest_def)
  have 4: "trim [] = []"
    by (simp add: trim_def)
  note th = loadData_rejects_backup_of_createBackup [OF valid_doc1 1 disjI1 [OF 2] 3 disjI1 [OF 4]]
  have l: "map name (taskBackups (map fst (the (BACKUP_DIR (createBackup plain_digest state1)))))
        = [''tasks-'' @ replace_colon_dot (toISOString (now state1)) @ ''.json'']"
    by (rule conjunct1 [OF th])
  have "\<exists>e. loadData plain_digest s = (Inl e, s)"
    unfolding s_def by (rule conjunct2 [OF th])
  then obtain e where e: "loadData plain_digest s = (Inl e, s)" ..
  have t: "TASKS_FILE s = Some []"
    by (simp add: s_def)
  obtain r s' where r: "restoreFromBackup plain_digest s = (r, s')"
    by (cases "restoreFromBackup plain_digest s")
  have "r = None"
    using e t r by (cases r) (simp_all add: loadData_def 4 restore_or_def)
  then have "fst (loadData plain_digest s)
      = Inl (ApiError ''Failed to load tasks data: Error: Empty file detected'' 500)"
    using t r by (simp add: loadData_def 4 restore_or_def load_failure_def error_toString_def)
  with e have "loadData plain_digest s
      = (Inl (ApiError ''Failed to load tasks data: Error: Empty file detected'' 500), s)"
    by simp
  then have "loadData plain_digest (createBackup plain_digest state1\<lparr>TASKS_FILE := Some []\<rparr>)
      = (Inl (ApiError ''Failed to load tasks data: Error: Empty file detected'' 500),
         createBackup plain_digest state1\<lparr>TASKS_FILE := Some []\<rparr>)"
    unfolding s_def .
  with valid_doc1 1 2 3 4 l show ?thesis
    by (intro conjI)
qed

text \<open>
  Claim C2. For every document \<open>D\<close> that is valid against the schema of documents,
  \<open>saveData(D)\<close> followed by \<open>loadData()\<close> returns a document equal to \<open>D\<close>: when
  \<open>saveData\<close> returns without an error, from any state and with any digest,
  \<open>loadData\<close> in the state it leaves returns \<open>D\<close> and changes nothing.
\<close>

theorem saveData_loadData_roundtrip:
  assumes "valid_TasksData D" and "saveData sha256 D s = (Inr u, s')"
  shows "loadData sha256 s' = (Inr D, s')"
  using saveData_success(2) [OF assms(2)] assms(1) by (rule loadData_valid_file)

theorem saveData_loadData_roundtrip_witness:
  "valid_TasksData doc1
   \<and> fst (saveData plain_digest doc1 state0) = Inr ()
   \<and> fst (loadData plain_digest (snd (saveData plain_digest doc1 state0))) = Inr doc1"
proof -
  have v: "valid_TasksData doc1"
    by (simp add: valid_TasksData_def valid_Request_def valid_Task_def doc1_def request1_def
        task1_def)
  have f: "fst (saveData plain_digest doc1 state0) = Inr ()"
    by (simp add: saveData_def saveData_on_def acquireLock_free state0_def
        TasksDataSchema_parse_json_of v Let_def calculateChecksum_def)
  have s: "saveData plain_digest doc1 state0 = (Inr (), snd (saveData plain_digest doc1 state0))"
    by (rule prod_eqI) (simp_all add: f)
  have "loadData plain_digest (snd (saveData plain_digest doc1 state0))
          = (Inr doc1, snd (saveData plain_digest doc1 state0))"
    by (rule saveData_loadData_roundtrip [OF v s])
  then have "fst (loadData plain_digest (snd (saveData plain_digest doc1 state0))) = Inr doc1"
    by (rule arg_cong [where f = fst, THEN trans]) simp
  with v f show ?thesis by blast
qed

text \<open>
  Claim C3. In every run of \<open>saveData\<close> that has taken the lock and validated the
  document, and in which the checksum of the temporary file as read back differs from
  the checksum of the serialized document, \<open>saveData\<close> fails with an error, the live
  file and its checksum file are what they were before the call, and both temporary
  files are gone. What is read back is any function of what was written.
\<close>

theorem saveData_integrity_failure:
  assumes "acquireLock s = (Inr u, s1)" and "valid_TasksData d"
    and "calculateChecksum sha256 (disk (JSON_stringify2 (json_of_TasksData d)))
           \<noteq> calculateChecksum sha256 (JSON_stringify2 (json_of_TasksData d))"
    and "saveData_on disk sha256 d s = (r, s')"
  shows "r = Inl (Error ''Data integrity check failed after write'')
     \<and> TASKS_FILE s' = TASKS_FILE s \<and> TASKS_FILE_checksum s' = TASKS_FILE_checksum s
     \<and> TASKS_FILE_tmp s' = None \<and> TASKS_FILE_tmp_checksum s' = None"
proof -
  from saveData_on_locked [OF assms(1,2), of disk sha256] assms(3,4)
  have r: "r = Inl (Error ''Data integrity check failed after write'')"
    and s': "s' = releaseLock (createBackup sha256 s1
                    \<lparr>TASKS_FILE_tmp := None, TASKS_FILE_tmp_checksum := None\<rparr>)"
    by (simp_all add: Let_def)
  show ?thesis
    using acquireLock_frame [OF assms(1)]
    by (simp add: r s' releaseLock_frame createBackup_files)
qed

theorem saveData_integrity_failure_witness:
  "acquireLock state0
     = (Inr (), state0\<lparr>LOCK_FILE := Some (LockInfo (Some (now state0))), lockFile := Some 3\<rparr>)
   \<and> valid_TasksData doc1
   \<and> calculateChecksum plain_digest ((\<lambda>w. ''torn'') (JSON_stringify2 (json_of_TasksData doc1)))
        \<noteq> calculateChecksum plain_digest (JSON_stringify2 (json_of_TasksData doc1))
   \<and> fst (saveData_on (\<lambda>w. ''torn'') plain_digest doc1 state0)
        = Inl (Error ''Data integrity check failed after write'')
   \<and> TASKS_FILE (snd (saveData_on (\<lambda>w. ''torn'') plain_digest doc1 state0)) = None
   \<and> TASKS_FILE_tmp (snd (saveData_on (\<lambda>w. ''torn'') plain_digest doc1 state0)) = None
   \<and> TASKS_FILE_tmp_checksum (snd (saveData_on (\<lambda>w. ''torn'') plain_digest doc1 state0)) = None"
proof -
  have a: "acquireLock state0
     = (Inr (), state0\<lparr>LOCK_FILE := Some (LockInfo (Some (now state0))), lockFile := Some 3\<rparr>)"
    by (rule acquireLock_free) (simp add: state0_def)
  have v: "valid_TasksData doc1"
    by (simp add: valid_TasksData_def valid_Request_def valid_Task_def doc1_def request1_def
        task1_def)
  have c: "calculateChecksum plain_digest ((\<lambda>w. ''torn'') (JSON_stringify2 (json_of_TasksData doc1)))
        \<noteq> calculateChecksum plain_digest (JSON_stringify2 (json_of_TasksData doc1))"
    by (simp add: calculateChecksum_def plain_digest_def JSON_stringify2_def json_of_TasksData_def
        doc1_def)
  have p: "saveData_on (\<lambda>w. ''torn'') plain_digest doc1 state0
     = (fst (saveData_on (\<lambda>w. ''torn'') plain_digest doc1 state0),
        snd (saveData_on (\<lambda>w. ''torn'') plain_digest doc1 state0))"
    by simp
  have t: "TASKS_FILE state0 = None"
    by (simp add: state0_def)
  have r: "fst (saveData_on (\<lambda>w. ''torn'') plain_digest doc1 state0)
             = Inl (Error ''Data integrity check failed after write'')
     \<and> TASKS_FILE (snd (saveData_on (\<lambda>w. ''torn'') plain_digest doc1 state0)) = TASKS_FILE state0
     \<and> TASKS_FILE_checksum (snd (saveData_on (\<lambda>w. ''torn'') plain_digest doc1 state0))
           = TASKS_FILE_checksum state0
     \<and> TASKS_FILE_tmp (snd (saveData_on (\<lambda>w. ''torn'') plain_digest doc1 state0)) = None
     \<and> TASKS_FILE_tmp_checksum (snd (saveData_on (\<lambda>w. ''torn'') plain_digest doc1 state0)) = None"
    by (rule saveData_integrity_failure [OF a v c p])
  show ?thesis
    using a v c r by (simp only: t simp_thms)
qed

text \<open>
  Claim C4, at an input where it fails. The backup directory holds ten manual backups
  of January 2024 and one automatic backup of June 2025, eleven files that match the
  naming convention. \<open>cleanupOldBackups\<close> deletes the automatic backup, the most recent
  of the eleven, and keeps the ten manual ones: the text it sorts by is the name without
  \<open>tasks-\<close> and \<open>.json\<close>, which for a manual backup starts with \<open>manual-\<close> and sorts
  after every digit.
\<close>

theorem cleanupOldBackups_deletes_newest:
  "BACKUP_DIR (cleanupOldBackups
      (state0\<lparr>BACKUP_DIR :=
                 Some (manual_backups @ [(''tasks-2025-06-01T00-00-00-000Z.json'', [])])\<rparr>))
   = Some manual_backups"
  by code_simp

text \<open>
  Claim C5, as stated, fails: an identifier carried by the input fields is not
  overwritten. The document holds \<open>req-1\<close>, so the generated identifier is \<open>req-2\<close>;
  the input carries \<open>custom\<close>, and the new request is called \<open>custom\<close>.
\<close>

theorem createRequest_keeps_supplied_identifier:
  "''req-'' @ show_nat (next_free ''req-'' (map requestId (requests doc1)) 1) = ''req-2''
   \<and> map_sum (\<lambda>e. e) requestId (fst (createRequest plain_digest request_input_with_id state1))
       = Inr ''custom''"
proof -
  let ?r = "new_Request (''req-'' @ show_nat (next_free ''req-'' (map requestId (requests doc1)) 1))
              request_input_with_id"
  have "next_free ''req-'' (map requestId (requests doc1)) 1 = 2"
    by code_simp
  moreover have "show_nat 2 = ''2''"
    by code_simp
  ultimately have 1: "''req-'' @ show_nat (next_free ''req-'' (map requestId (requests doc1)) 1)
      = ''req-2''"
    by simp
  have r: "valid_Request ?r" "requestId ?r = ''custom''"
    by (simp_all add: new_Request_def request_input_with_id_def valid_Request_def or_else_def)
  have "fst (createRequest plain_digest request_input_with_id state1) = Inr ?r"
    by (rule createRequest_succeeds [OF loadData_state1 LOCK_FILE_state1 refl r(1) valid_doc1])
  with 1 r(2) show ?thesis by simp
qed

text \<open>
  Claim C5, amended. For every state in which the document loads: a request that
  \<open>createRequest\<close> returns has, when the input fields carry no identifier, the identifier
  \<open>req-N\<close> with \<open>N\<close> the smallest positive number such that \<open>req-N\<close> is not among the
  identifiers of the existing requests, and when they carry one, that one. A task that
  \<open>createTask\<close> returns has likewise \<open>task-N\<close>, smallest among the tasks of the first
  request with the given identifier, or the identifier the input carries.
\<close>

theorem create_assigns_identifier:
  assumes "loadData sha256 s = (Inr d, s1)"
  shows "(createRequest sha256 requestData s = (Inr r, s2) \<longrightarrow>
            (case in_requestId requestData of
               None \<Rightarrow> \<exists>N. least_free ''req-'' (map requestId (requests d)) N
                            \<and> requestId r = ''req-'' @ show_nat N
             | Some supplied \<Rightarrow> requestId r = supplied))
       \<and> (createTask sha256 rid taskData s = (Inr t, s3) \<longrightarrow>
            (\<exists>request. find (\<lambda>r. requestId r = rid) (requests d) = Some request
               \<and> (case in_id taskData of
                     None \<Rightarrow> \<exists>N. least_free ''task-'' (map id_task (tasks request)) N
                                  \<and> id_task t = ''task-'' @ show_nat N
                   | Some supplied \<Rightarrow> id_task t = supplied)))"
proof (intro conjI impI)
  assume "createRequest sha256 requestData s = (Inr r, s2)"
  from createRequest_Inr(1) [OF assms this]
  have "requestId r = or_else (in_requestId requestData)
          (''req-'' @ show_nat (next_free ''req-'' (map requestId (requests d)) 1))"
    by (simp add: new_Request_def)
  then show "case in_requestId requestData of
               None \<Rightarrow> \<exists>N. least_free ''req-'' (map requestId (requests d)) N
                            \<and> requestId r = ''req-'' @ show_nat N
             | Some supplied \<Rightarrow> requestId r = supplied"
    using next_free_least [of "''req-''" "map requestId (requests d)"]
    by (auto simp add: or_else_def split: option.splits)
next
  assume "createTask sha256 rid taskData s = (Inr t, s3)"
  from createTask_Inr [OF assms this] obtain i where
    i: "findIndex (\<lambda>r. requestId r = rid) (requests d) = Some i"
    and t: "t = new_Task (''task-'' @ show_nat (next_free ''task-''
                            (map id_task (tasks (requests d ! i))) 1)) taskData"
    by blast
  have "id_task t = or_else (in_id taskData)
          (''task-'' @ show_nat (next_free ''task-'' (map id_task (tasks (requests d ! i))) 1))"
    by (simp add: t new_Task_def)
  then have "case in_id taskData of
               None \<Rightarrow> \<exists>N. least_free ''task-'' (map id_task (tasks (requests d ! i))) N
                            \<and> id_task t = ''task-'' @ show_nat N
             | Some supplied \<Rightarrow> id_task t = supplied"
    using next_free_least [of "''task-''" "map id_task (tasks (requests d ! i))"]
    by (auto simp add: or_else_def split: option.splits)
  with find_findIndex [OF i]
  show "\<exists>request. find (\<lambda>r. requestId r = rid) (requests d) = Some request
               \<and> (case in_id taskData of
                     None \<Rightarrow> \<exists>N. least_free ''task-'' (map id_task (tasks request)) N
                                  \<and> id_task t = ''task-'' @ show_nat N
                   | Some supplied \<Rightarrow> id_task t = supplied)"
    by blast
qed

theorem create_assigns_identifier_witness:
  "loadData plain_digest state1 = (Inr doc1, state1)
   \<and> (\<exists>r. fst (createRequest plain_digest request_input state1) = Inr r
          \<and> (\<exists>N. least_free ''req-'' (map requestId (requests doc1)) N
                 \<and> requestId r = ''req-'' @ show_nat N))
   \<and> (\<exists>t. fst (createTask plain_digest ''req-1'' task_input state1) = Inr t
          \<and> (\<exists>N. least_free ''task-'' (map id_task (tasks request1)) N
                 \<and> id_task t = ''task-'' @ show_nat N))"
proof -
  let ?r = "new_Request (''req-'' @ show_nat (next_free ''req-'' (map requestId (requests doc1)) 1))
              request_input"
  let ?t = "new_Task (''task-'' @ show_nat (next_free ''task-''
                        (map id_task (tasks (requests doc1 ! 0))) 1)) task_input"
  have vr: "valid_Request ?r"
    by (simp add: new_Request_def request_input_def valid_Request_def or_else_def)
  have vt: "valid_Task ?t"
    by (simp add: new_Task_def task_input_def valid_Task_def or_else_def)
  have fr: "fst (createRequest plain_digest request_input state1) = Inr ?r"
    by (rule createRequest_succeeds [OF loadData_state1 LOCK_FILE_state1 refl vr valid_doc1])
  have ft: "fst (createTask plain_digest ''req-1'' task_input state1) = Inr ?t"
    by (rule createTask_succeeds
          [OF loadData_state1 LOCK_FILE_state1 findIndex_doc1 refl vt valid_doc1])
  have er: "createRequest plain_digest request_input state1
              = (Inr ?r, snd (createRequest plain_digest request_input state1))"
    by (rule prod_eqI) (simp_all add: fr)
  have et: "createTask plain_digest ''req-1'' task_input state1
              = (Inr ?t, snd (createTask plain_digest ''req-1'' task_input state1))"
    by (rule prod_eqI) (simp_all add: ft)
  have f: "find (\<lambda>r. requestId r = ''req-1'') (requests doc1) = Some request1"
    by (simp add: doc1_def request1_def)
  from create_assigns_identifier [OF loadData_state1, of plain_digest request_input ?r
      "snd (createRequest plain_digest request_input state1)" "''req-1''" task_input ?t
      "snd (createTask plain_digest ''req-1'' task_input state1)"] er et f
  have "(\<exists>N. least_free ''req-'' (map requestId (requests doc1)) N
             \<and> requestId ?r = ''req-'' @ show_nat N)
      \<and> (\<exists>N. least_free ''task-'' (map id_task (tasks request1)) N
             \<and> id_task ?t = ''task-'' @ show_nat N)"
    by (simp add: request_input_def task_input_def)
  with fr ft loadData_state1 [of plain_digest] show ?thesis
    by blast
qed

text \<open>
  Claim C6, as stated, fails: \<open>updateTask\<close> merges every property of the updates over
  the task, the identifier too. Updating task \<open>task-1\<close> of request \<open>req-1\<close> with
  updates that carry the identifier \<open>task-9\<close> returns a task called \<open>task-9\<close>.
\<close>

theorem updateTask_changes_identifier:
  "map_sum (\<lambda>e. e) id_task
     (fst (updateTask plain_digest ''req-1'' ''task-1'' task_updates_with_id state1))
   = Inr ''task-9''"
proof -
  let ?t = "merge_Task (tasks (requests doc1 ! 0) ! 0) task_updates_with_id"
  have t: "valid_Task ?t" "id_task ?t = ''task-9''"
    by (simp_all add: merge_Task_def task_updates_with_id_def valid_Task_def or_else_def
        doc1_def request1_def task1_def)
  have "fst (updateTask plain_digest ''req-1'' ''task-1'' task_updates_with_id state1) = Inr ?t"
    by (rule updateTask_succeeds
          [OF loadData_state1 LOCK_FILE_state1 findIndex_doc1 findIndex_task1 refl t(1) valid_doc1])
  with t(2) show ?thesis by simp
qed

text \<open>
  Claim C6, amended. The task a successful \<open>updateTask(requestId, taskId, updates)\<close>
  returns has the identifier \<open>taskId\<close> when the updates carry no identifier, and the
  identifier of the updates when they carry one; the request a successful
  \<open>updateRequest(requestId, updates)\<close> returns has the identifier \<open>requestId\<close> when the
  updates carry none, and the one of the updates otherwise.
\<close>

theorem update_identifier:
  "(updateTask sha256 rid tid task_updates s = (Inr t, s2) \<longrightarrow>
      id_task t = (case upd_id task_updates of None \<Rightarrow> tid | Some supplied \<Rightarrow> supplied))
   \<and> (updateRequest sha256 rid request_updates s = (Inr r, s3) \<longrightarrow>
      requestId r = (case upd_requestId request_updates of None \<Rightarrow> rid
                     | Some supplied \<Rightarrow> supplied))"
proof (intro conjI impI)
  assume a: "updateTask sha256 rid tid task_updates s = (Inr t, s2)"
  then obtain d s1 where l: "loadData sha256 s = (Inr d, s1)"
    by (cases "loadData sha256 s"; cases "fst (loadData sha256 s)")
       (auto simp add: updateTask_def)
  from updateTask_Inr [OF l a] obtain i j where
    j: "findIndex (\<lambda>t. id_task t = tid) (tasks (requests d ! i)) = Some j"
    and t: "t = merge_Task (tasks (requests d ! i) ! j) task_updates"
    by blast
  from findIndex_Some [OF j] have "id_task (tasks (requests d ! i) ! j) = tid"
    by simp
  then show "id_task t = (case upd_id task_updates of None \<Rightarrow> tid | Some supplied \<Rightarrow> supplied)"
    by (simp add: t merge_Task_def or_else_def)
next
  assume a: "updateRequest sha256 rid request_updates s = (Inr r, s3)"
  then obtain d s1 where l: "loadData sha256 s = (Inr d, s1)"
    by (cases "loadData sha256 s"; cases "fst (loadData sha256 s)")
       (auto simp add: updateRequest_def)
  from updateRequest_Inr [OF l a] obtain i where
    i: "findIndex (\<lambda>r. requestId r = rid) (requests d) = Some i"
    and r: "r = merge_Request (requests d ! i) request_updates"
    by blast
  from findIndex_Some [OF i] have "requestId (requests d ! i) = rid"
    by simp
  then show "requestId r = (case upd_requestId request_updates of None \<Rightarrow> rid
                            | Some supplied \<Rightarrow> supplied)"
    by (simp add: r merge_Request_def or_else_def)
qed

theorem update_identifier_witness:
  "(\<exists>t. fst (updateTask plain_digest ''req-1'' ''task-1'' task_updates_done state1) = Inr t
        \<and> id_task t = ''task-1'')
   \<and> (\<exists>r. fst (updateRequest plain_digest ''req-1'' request_updates_title state1) = Inr r
          \<and> requestId r = ''req-1'')"
proof -
  let ?t = "merge_Task (tasks (requests doc1 ! 0) ! 0) task_updates_done"
  let ?r = "merge_Request (requests doc1 ! 0) request_updates_title"
  have vt: "valid_Task ?t"
    by (simp add: merge_Task_def task_updates_done_def valid_Task_def or_else_def
        doc1_def request1_def task1_def)
  have vr: "valid_Request ?r"
    by (simp add: merge_Request_def request_updates_title_def valid_Request_def valid_Task_def
        or_else_def doc1_def request1_def task1_def)
  have ft: "fst (updateTask plain_digest ''req-1'' ''task-1'' task_updates_done state1) = Inr ?t"
    by (rule updateTask_succeeds
          [OF loadData_state1 LOCK_FILE_state1 findIndex_doc1 findIndex_task1 refl vt valid_doc1])
  have fr: "fst (updateRequest plain_digest ''req-1'' request_updates_title state1) = Inr ?r"
    by (rule updateRequest_succeeds
          [OF loadData_state1 LOCK_FILE_state1 findIndex_doc1 refl vr valid_doc1])
  have et: "updateTask plain_digest ''req-1'' ''task-1'' task_updates_done state1
      = (Inr ?t, snd (updateTask plain_digest ''req-1'' ''task-1'' task_updates_done state1))"
    by (rule prod_eqI) (simp_all add: ft)
  have er: "updateRequest plain_digest ''req-1'' request_updates_title state1
      = (Inr ?r, snd (updateRequest plain_digest ''req-1'' request_updates_title state1))"
    by (rule prod_eqI) (simp_all add: fr)
  from update_identifier [of plain_digest "''req-1''" "''task-1''" task_updates_done state1 ?t
      "snd (updateTask plain_digest ''req-1'' ''task-1'' task_updates_done state1)"
      request_updates_title ?r
      "snd (updateRequest plain_digest ''req-1'' request_updates_title state1)"] et er
  have "id_task ?t = ''task-1'' \<and> requestId ?r = ''req-1''"
    by (simp add: task_updates_done_def request_updates_title_def)
  with ft fr show ?thesis by blast
qed

text \<open>
  Claim C7. When the document loads and holds no request with the given identifier,
  \<open>updateRequest\<close>, \<open>deleteRequest\<close>, \<open>updateTask\<close> and \<open>deleteTask\<close> raise the
  not-found error of status 404 and \<open>getRequest\<close> and \<open>getTask\<close> return \<open>null\<close>; when
  the request exists and holds no task with the given identifier, \<open>updateTask\<close> and
  \<open>deleteTask\<close> raise the not-found error and \<open>getTask\<close> returns \<open>null\<close>. In each
  case the state afterwards is the state \<open>loadData\<close> left: nothing is saved.
\<close>

theorem not_found:
  assumes "loadData sha256 s = (Inr d, s1)"
  shows "((\<forall>r \<in> set (requests d). requestId r \<noteq> rid) \<longrightarrow>
            updateRequest sha256 rid request_updates s = (Inl NotFound_Request, s1)
          \<and> deleteRequest sha256 rid s = (Inl NotFound_Request, s1)
          \<and> updateTask sha256 rid tid task_updates s = (Inl NotFound_Request, s1)
          \<and> deleteTask sha256 rid tid s = (Inl NotFound_Request, s1)
          \<and> getRequest sha256 rid s = (Inr None, s1)
          \<and> getTask sha256 rid tid s = (Inr None, s1))
       \<and> (\<forall>request. find (\<lambda>r. requestId r = rid) (requests d) = Some request
                     \<and> (\<forall>t \<in> set (tasks request). id_task t \<noteq> tid) \<longrightarrow>
            updateTask sha256 rid tid task_updates s = (Inl NotFound_Task, s1)
          \<and> deleteTask sha256 rid tid s = (Inl NotFound_Task, s1)
          \<and> getTask sha256 rid tid s = (Inr None, s1))"
proof (intro conjI impI allI)
  assume "\<forall>r \<in> set (requests d). requestId r \<noteq> rid"
  then have none: "findIndex (\<lambda>r. requestId r = rid) (requests d) = None"
    and nofind: "find (\<lambda>r. requestId r = rid) (requests d) = None"
    by (simp_all add: findIndex_None find_None_iff)
  show "updateRequest sha256 rid request_updates s = (Inl NotFound_Request, s1)"
    by (simp add: updateRequest_def assms none)
  show "deleteRequest sha256 rid s = (Inl NotFound_Request, s1)"
    by (simp add: deleteRequest_def assms none)
  show "updateTask sha256 rid tid task_updates s = (Inl NotFound_Request, s1)"
    by (simp add: updateTask_def assms none)
  show "deleteTask sha256 rid tid s = (Inl NotFound_Request, s1)"
    by (simp add: deleteTask_def assms none)
  show "getRequest sha256 rid s = (Inr None, s1)"
    by (simp add: getRequest_def assms nofind)
  then show "getTask sha256 rid tid s = (Inr None, s1)"
    by (simp add: getTask_def)
next
  fix request
  assume a: "find (\<lambda>r. requestId r = rid) (requests d) = Some request
               \<and> (\<forall>t \<in> set (tasks request). id_task t \<noteq> tid)"
  then obtain i where i: "findIndex (\<lambda>r. requestId r = rid) (requests d) = Some i"
    by (cases "findIndex (\<lambda>r. requestId r = rid) (requests d)")
       (auto simp add: findIndex_None find_Some_iff)
  with a have request: "requests d ! i = request"
    using find_findIndex [OF i] by simp
  with a have none: "findIndex (\<lambda>t. id_task t = tid) (tasks (requests d ! i)) = None"
    and nofind: "find (\<lambda>t. id_task t = tid) (tasks request) = None"
    by (simp_all add: findIndex_None find_None_iff)
  show "updateTask sha256 rid tid task_updates s = (Inl NotFound_Task, s1)"
    by (simp add: updateTask_def assms i none)
  show "deleteTask sha256 rid tid s = (Inl NotFound_Task, s1)"
    by (simp add: deleteTask_def assms i none)
  have "getRequest sha256 rid s = (Inr (Some request), s1)"
    using a by (simp add: getRequest_def assms)
  then show "getTask sha256 rid tid s = (Inr None, s1)"
    by (simp add: getTask_def nofind)
qed

theorem not_found_witness:
  "loadData plain_digest state1 = (Inr doc1, state1)
   \<and> updateRequest plain_digest ''req-9'' request_updates_title state1
       = (Inl (ApiError ''Request not found'' 404), state1)
   \<and> deleteRequest plain_digest ''req-9'' state1 = (Inl (ApiError ''Request not found'' 404), state1)
   \<and> getRequest plain_digest ''req-9'' state1 = (Inr None, state1)
   \<and> updateTask plain_digest ''req-1'' ''task-9'' task_updates_done state1
       = (Inl (ApiError ''Task not found'' 404), state1)
   \<and> deleteTask plain_digest ''req-1'' ''task-9'' state1
       = (Inl (ApiError ''Task not found'' 404), state1)
   \<and> getTask plain_digest ''req-1'' ''task-9'' state1 = (Inr None, state1)"
proof -
  have 1: "\<forall>r \<in> set (requests doc1). requestId r \<noteq> ''req-9''"
    by (simp add: doc1_def request1_def)
  have 2: "find (\<lambda>r. requestId r = ''req-1'') (requests doc1) = Some request1
             \<and> (\<forall>t \<in> set (tasks request1). id_task t \<noteq> ''task-9'')"
    by (simp add: doc1_def request1_def task1_def)
  from not_found [where rid = "''req-9''" and request_updates = request_updates_title
      and tid = "''task-9''" and task_updates = task_updates_done, OF loadData_state1] 1
  have a: "updateRequest plain_digest ''req-9'' request_updates_title state1
             = (Inl NotFound_Request, state1)
         \<and> deleteRequest plain_digest ''req-9'' state1 = (Inl NotFound_Request, state1)
         \<and> getRequest plain_digest ''req-9'' state1 = (Inr None, state1)"
    by blast
  from not_found [where rid = "''req-1''" and request_updates = request_updates_title
      and tid = "''task-9''" and task_updates = task_updates_done, OF loadData_state1] 2
  have b: "updateTask plain_digest ''req-1'' ''task-9'' task_updates_done state1
             = (Inl NotFound_Task, state1)
         \<and> deleteTask plain_digest ''req-1'' ''task-9'' state1 = (Inl NotFound_Task, state1)
         \<and> getTask plain_digest ''req-1'' ''task-9'' state1 = (Inr None, state1)"
    by blast
  show ?thesis
    using a b loadData_state1 [of plain_digest]
    by (simp add: NotFound_Request_def NotFound_Task_def)
qed

text \<open>
  Claim C8, at an input where it fails. The lock file holds JSON with no timestamp that
  is a date (\<open>{}\<close>, say), so its age is \<open>NaN\<close> and no comparison with it holds: the
  lock is not taken for stale, reading it throws nothing, and \<open>acquireLock\<close> sleeps and
  tries again until its own timeout. It fails with status 409 after the 30 seconds and
  the lock file is still there.
\<close>

theorem acquireLock_keeps_lock_without_timestamp:
  assumes "LOCK_FILE s = Some (LockInfo None)"
  shows "fst (acquireLock s) = Inl (ApiError ''Timeout waiting for file lock'' 409)
     \<and> LOCK_FILE (snd (acquireLock s)) = Some (LockInfo None)
     \<and> now s + LOCK_TIMEOUT \<le> now (snd (acquireLock s))"
proof -
  have "LOCK_FILE s = Some (LockInfo None) \<Longrightarrow>
        fst (acquireLock_loop st s) = Inl (ApiError ''Timeout waiting for file lock'' 409)
      \<and> LOCK_FILE (snd (acquireLock_loop st s)) = Some (LockInfo None)
      \<and> st + LOCK_TIMEOUT \<le> now (snd (acquireLock_loop st s))" for st
  proof (induction st s rule: acquireLock_loop.induct)
    case (1 st s)
    show ?case
    proof (cases "now s - st < LOCK_TIMEOUT")
      case True
      with "1.prems" have "acquireLock_loop st s = acquireLock_loop st (s\<lparr>now := now s + 100\<rparr>)"
        by (simp add: acquireLock_loop.simps [of st s])
      moreover have "LOCK_FILE (s\<lparr>now := now s + 100\<rparr>) = Some (LockInfo None)"
        using "1.prems" by simp
      ultimately show ?thesis
        using "1.IH"(2) [OF True "1.prems" refl] by simp
    next
      case False
      with "1.prems" show ?thesis
        by (simp add: acquireLock_loop.simps [of st s])
    qed
  qed
  from this [OF assms, of "now s"] show ?thesis
    by (simp add: acquireLock_def)
qed

theorem acquireLock_keeps_lock_without_timestamp_witness:
  "LOCK_FILE (state0\<lparr>LOCK_FILE := Some (LockInfo None)\<rparr>) = Some (LockInfo None)
   \<and> fst (acquireLock (state0\<lparr>LOCK_FILE := Some (LockInfo None)\<rparr>))
       = Inl (ApiError ''Timeout waiting for file lock'' 409)
   \<and> LOCK_FILE (snd (acquireLock (state0\<lparr>LOCK_FILE := Some (LockInfo None)\<rparr>)))
       = Some (LockInfo None)"
proof -
  have 1: "LOCK_FILE (state0\<lparr>LOCK_FILE := Some (LockInfo None)\<rparr>) = Some (LockInfo None)"
    by simp
  from acquireLock_keeps_lock_without_timestamp [OF 1] 1 show ?thesis
    by blast
qed




text \<open>
  Claim C10. Let the document load as \<open>d\<close>. After a successful \<open>updateRequest\<close> the
  document that loads is \<open>d\<close> with the request at the first position of the given
  identifier replaced by the returned request; after a successful \<open>deleteRequest\<close> it is
  \<open>d\<close> without that position. After a successful \<open>updateTask\<close> it is \<open>d\<close> with, in the
  request at that position, the task at the first position of the given task
  identifier replaced by the returned task; after a successful \<open>deleteTask\<close>, without
  that task. So every other request, and every other task of the request, is what it was
  and where it was relative to the others.
\<close>

theorem mutation_frame:
  assumes "loadData sha256 s = (Inr d, s1)"
  shows "(updateRequest sha256 rid request_updates s = (Inr r, s2) \<longrightarrow>
            (\<exists>i. findIndex (\<lambda>r. requestId r = rid) (requests d) = Some i
               \<and> loadData sha256 s2 = (Inr (d\<lparr>requests := (requests d)[i := r]\<rparr>), s2)))
       \<and> (deleteRequest sha256 rid s = (Inr u, s3) \<longrightarrow>
            (\<exists>i. findIndex (\<lambda>r. requestId r = rid) (requests d) = Some i
               \<and> loadData sha256 s3
                   = (Inr (d\<lparr>requests := take i (requests d) @ drop (Suc i) (requests d)\<rparr>), s3)))
       \<and> (updateTask sha256 rid tid task_updates s = (Inr t, s4) \<longrightarrow>
            (\<exists>i j. findIndex (\<lambda>r. requestId r = rid) (requests d) = Some i
               \<and> findIndex (\<lambda>t. id_task t = tid) (tasks (requests d ! i)) = Some j
               \<and> loadData sha256 s4
                   = (Inr (d\<lparr>requests := (requests d)
                             [i := (requests d ! i)
                                     \<lparr>tasks := (tasks (requests d ! i))[j := t]\<rparr>]\<rparr>), s4)))
       \<and> (deleteTask sha256 rid tid s = (Inr u', s5) \<longrightarrow>
            (\<exists>i j. findIndex (\<lambda>r. requestId r = rid) (requests d) = Some i
               \<and> findIndex (\<lambda>t. id_task t = tid) (tasks (requests d ! i)) = Some j
               \<and> loadData sha256 s5
                   = (Inr (d\<lparr>requests := (requests d)
                             [i := (requests d ! i)
                                     \<lparr>tasks := take j (tasks (requests d ! i))
                                                @ drop (Suc j) (tasks (requests d ! i))\<rparr>]\<rparr>), s5)))"
proof (intro conjI impI)
  assume "updateRequest sha256 rid request_updates s = (Inr r, s2)"
  from updateRequest_Inr [OF assms this] obtain i v where
    "findIndex (\<lambda>r. requestId r = rid) (requests d) = Some i"
    "saveData sha256 (d\<lparr>requests := (requests d)[i := r]\<rparr>) s1 = (Inr v, s2)"
    by blast
  then show "\<exists>i. findIndex (\<lambda>r. requestId r = rid) (requests d) = Some i
               \<and> loadData sha256 s2 = (Inr (d\<lparr>requests := (requests d)[i := r]\<rparr>), s2)"
    using loadData_after_saveData by blast
next
  assume "deleteRequest sha256 rid s = (Inr u, s3)"
  from deleteRequest_Inr [OF assms this] obtain i where
    "findIndex (\<lambda>r. requestId r = rid) (requests d) = Some i"
    "saveData sha256 (d\<lparr>requests := splice1 i (requests d)\<rparr>) s1 = (Inr u, s3)"
    by blast
  then show "\<exists>i. findIndex (\<lambda>r. requestId r = rid) (requests d) = Some i
               \<and> loadData sha256 s3
                   = (Inr (d\<lparr>requests := take i (requests d) @ drop (Suc i) (requests d)\<rparr>), s3)"
    using loadData_after_saveData unfolding splice1_def by blast
next
  assume "updateTask sha256 rid tid task_updates s = (Inr t, s4)"
  from updateTask_Inr [OF assms this] obtain i j v where
    "findIndex (\<lambda>r. requestId r = rid) (requests d) = Some i"
    "findIndex (\<lambda>t. id_task t = tid) (tasks (requests d ! i)) = Some j"
    "saveData sha256 (set_tasks d i ((tasks (requests d ! i))[j := t])) s1 = (Inr v, s4)"
    by blast
  then show "\<exists>i j. findIndex (\<lambda>r. requestId r = rid) (requests d) = Some i
               \<and> findIndex (\<lambda>t. id_task t = tid) (tasks (requests d ! i)) = Some j
               \<and> loadData sha256 s4
                   = (Inr (d\<lparr>requests := (requests d)
                             [i := (requests d ! i)
                                     \<lparr>tasks := (tasks (requests d ! i))[j := t]\<rparr>]\<rparr>), s4)"
    using loadData_after_saveData unfolding set_tasks_def by blast
next
  assume "deleteTask sha256 rid tid s = (Inr u', s5)"
  from deleteTask_Inr [OF assms this] obtain i j where
    "findIndex (\<lambda>r. requestId r = rid) (requests d) = Some i"
    "findIndex (\<lambda>t. id_task t = tid) (tasks (requests d ! i)) = Some j"
    "saveData sha256 (set_tasks d i (splice1 j (tasks (requests d ! i)))) s1 = (Inr u', s5)"
    by blast
  then show "\<exists>i j. findIndex (\<lambda>r. requestId r = rid) (requests d) = Some i
               \<and> findIndex (\<lambda>t. id_task t = tid) (tasks (requests d ! i)) = Some j
               \<and> loadData sha256 s5
                   = (Inr (d\<lparr>requests := (requests d)
                             [i := (requests d ! i)
                                     \<lparr>tasks := take j (tasks (requests d ! i))
                                                @ drop (Suc j) (tasks (requests d ! i))\<rparr>]\<rparr>), s5)"
    using loadData_after_saveData unfolding set_tasks_def splice1_def by blast
qed

theorem mutation_frame_witness:
  "loadData plain_digest state2 = (Inr doc2, state2)
   \<and> fst (updateRequest plain_digest ''req-4'' request_updates_title state2)
       = Inr (request4\<lparr>originalRequest := ''Updated request'', completed := True\<rparr>)
   \<and> fst (loadData plain_digest
             (snd (updateRequest plain_digest ''req-4'' request_updates_title state2)))
       = Inr \<lparr>requests =
               [request1, request4\<lparr>originalRequest := ''Updated request'', completed := True\<rparr>]\<rparr>
   \<and> fst (deleteRequest plain_digest ''req-1'' state2) = Inr ()
   \<and> fst (loadData plain_digest (snd (deleteRequest plain_digest ''req-1'' state2)))
       = Inr \<lparr>requests = [request4]\<rparr>
   \<and> fst (updateTask plain_digest ''req-4'' ''task-2'' task_updates_done state2)
       = Inr (task2\<lparr>title := ''Updated task'', approved := True\<rparr>)
   \<and> fst (loadData plain_digest
             (snd (updateTask plain_digest ''req-4'' ''task-2'' task_updates_done state2)))
       = Inr \<lparr>requests =
               [request1,
                request4\<lparr>tasks := [task1_done, task2\<lparr>title := ''Updated task'', approved := True\<rparr>,
                                   task3, task4]\<rparr>]\<rparr>
   \<and> fst (deleteTask plain_digest ''req-4'' ''task-2'' state2) = Inr ()
   \<and> fst (loadData plain_digest (snd (deleteTask plain_digest ''req-4'' ''task-2'' state2)))
       = Inr \<lparr>requests = [request1, request4\<lparr>tasks := [task1_done, task3, task4]\<rparr>]\<rparr>"
proof -
  let ?r = "request4\<lparr>originalRequest := ''Updated request'', completed := True\<rparr>"
  let ?t = "task2\<lparr>title := ''Updated task'', approved := True\<rparr>"
  let ?s2 = "snd (updateRequest plain_digest ''req-4'' request_updates_title state2)"
  let ?s3 = "snd (deleteRequest plain_digest ''req-1'' state2)"
  let ?s4 = "snd (updateTask plain_digest ''req-4'' ''task-2'' task_updates_done state2)"
  let ?s5 = "snd (deleteTask plain_digest ''req-4'' ''task-2'' state2)"
  note l = loadData_state2 [of plain_digest]
  have r: "?r = merge_Request (requests doc2 ! 1) request_updates_title"
    by (simp add: doc2_def request4_def merge_Request_def request_updates_title_def or_else_def)
  have t: "?t = merge_Task (tasks (requests doc2 ! 1) ! 1) task_updates_done"
    by (simp add: doc2_def request4_def task2_def merge_Task_def task_updates_done_def
        or_else_def)
  have vr: "valid_Request ?r"
    by (simp add: valid_Request_def valid_Task_def request4_def task1_done_def task1_def
        task2_def task3_def task4_def)
  have vt: "valid_Task ?t"
    by (simp add: valid_Task_def task2_def)
  have fr: "fst (updateRequest plain_digest ''req-4'' request_updates_title state2) = Inr ?r"
    by (rule updateRequest_succeeds [OF l LOCK_FILE_state2 findIndex_doc2(2) r vr valid_doc2])
  have fd: "fst (deleteRequest plain_digest ''req-1'' state2) = Inr ()"
    by (rule deleteRequest_succeeds [OF l LOCK_FILE_state2 findIndex_doc2(1) valid_doc2])
  have ft: "fst (updateTask plain_digest ''req-4'' ''task-2'' task_updates_done state2) = Inr ?t"
    by (rule updateTask_succeeds
          [OF l LOCK_FILE_state2 findIndex_doc2(2) findIndex_task2 t vt valid_doc2])
  have fx: "fst (deleteTask plain_digest ''req-4'' ''task-2'' state2) = Inr ()"
    by (rule deleteTask_succeeds [OF l LOCK_FILE_state2 findIndex_doc2(2) findIndex_task2 valid_doc2])
  have er: "updateRequest plain_digest ''req-4'' request_updates_title state2 = (Inr ?r, ?s2)"
    by (rule prod_eqI) (simp_all add: fr)
  have ed: "deleteRequest plain_digest ''req-1'' state2 = (Inr (), ?s3)"
    by (rule prod_eqI) (simp_all add: fd)
  have et: "updateTask plain_digest ''req-4'' ''task-2'' task_updates_done state2 = (Inr ?t, ?s4)"
    by (rule prod_eqI) (simp_all add: ft)
  have ex: "deleteTask plain_digest ''req-4'' ''task-2'' state2 = (Inr (), ?s5)"
    by (rule prod_eqI) (simp_all add: fx)
  note frame4 = mutation_frame [where ?sha256.0 = plain_digest and rid = "''req-4''"
      and tid = "''task-2''" and request_updates = request_updates_title and r = ?r
      and ?s2.0 = ?s2 and task_updates = task_updates_done and t = ?t and ?s4.0 = ?s4
      and u' = "()" and ?s5.0 = ?s5, OF l]
  note frame1 = mutation_frame [where ?sha256.0 = plain_digest and rid = "''req-1''"
      and u = "()" and ?s3.0 = ?s3, OF l]
  from frame4 [THEN conjunct1, THEN mp, OF er] findIndex_doc2(2)
  have "loadData plain_digest ?s2 = (Inr (doc2\<lparr>requests := (requests doc2)[1 := ?r]\<rparr>), ?s2)"
    by auto
  then have 1: "fst (loadData plain_digest ?s2) = Inr \<lparr>requests = [request1, ?r]\<rparr>"
    by (simp add: doc2_def)
  from frame1 [THEN conjunct2, THEN conjunct1, THEN mp, OF ed] findIndex_doc2(1)
  have "loadData plain_digest ?s3
      = (Inr (doc2\<lparr>requests := take 0 (requests doc2) @ drop (Suc 0) (requests doc2)\<rparr>), ?s3)"
    by auto
  then have 2: "fst (loadData plain_digest ?s3) = Inr \<lparr>requests = [request4]\<rparr>"
    by (simp add: doc2_def)
  from frame4 [THEN conjunct2, THEN conjunct2, THEN conjunct1, THEN mp, OF et]
    findIndex_doc2(2) findIndex_task2
  have "loadData plain_digest ?s4
      = (Inr (doc2\<lparr>requests := (requests doc2)
                [1 := (requests doc2 ! 1)\<lparr>tasks := (tasks (requests doc2 ! 1))[1 := ?t]\<rparr>]\<rparr>), ?s4)"
    by auto
  then have 3: "fst (loadData plain_digest ?s4)
      = Inr \<lparr>requests = [request1, request4\<lparr>tasks := [task1_done, ?t, task3, task4]\<rparr>]\<rparr>"
    by (simp add: doc2_def request4_def)
  from frame4 [THEN conjunct2, THEN conjunct2, THEN conjunct2, THEN mp, OF ex]
    findIndex_doc2(2) findIndex_task2
  have "loadData plain_digest ?s5
      = (Inr (doc2\<lparr>requests := (requests doc2)
                [1 := (requests doc2 ! 1)
                        \<lparr>tasks := take 1 (tasks (requests doc2 ! 1))
                                   @ drop (Suc 1) (tasks (requests doc2 ! 1))\<rparr>]\<rparr>), ?s5)"
    by auto
  then have 4: "fst (loadData plain_digest ?s5)
      = Inr \<lparr>requests = [request1, request4\<lparr>tasks := [task1_done, task3, task4]\<rparr>]\<rparr>"
    by (simp add: doc2_def request4_def)
  show ?thesis
    using l fr 1 fd 2 ft 3 fx 4 by (intro conjI)
qed

end
